theory Spec2Isabelle
  imports Main "HOL-Library.Word" "HOL-Library.AList"
begin

unbundle bit_operations_syntax

chapter \<open>Envelope-encryption codec with time-based data-key rotation\<close>

text \<open>
  A shallow embedding of the codec server: the envelope cipher
  (\<open>EncryptWithDataKey\<close>, \<open>DecryptWithDataKey\<close>), the KMS manager with its current
  data key and decryption cache, and the two HTTP handlers \<open>handleEncode\<close> and
  \<open>handleDecode\<close>. Byte slices are lists of 8-bit words, Go strings are \<open>string\<close>
  (a list of 8-bit characters), errors are values of a sum type. The manager and the
  handlers are modelled one call at a time: a function takes the state before the call and
  returns the result and the state after it, and the read-write lock of the manager has
  no counterpart.
\<close>

type_synonym byte = "8 word"
type_synonym bytes = "byte list"
type_synonym block = "128 word"

section \<open>Library functions used by the source\<close>

subsection \<open>\<open>encoding/base64\<close>: \<open>StdEncoding\<close>\<close>

text \<open>
  The standard alphabet with \<open>=\<close> padding. \<open>b64_Encode\<close> is \<open>Encoding.Encode\<close>: three
  source bytes are packed into a 24-bit value and cut into four sextets. \<open>b64_Decode\<close> is
  \<open>Encoding.Decode\<close> with \<open>decodeQuantum\<close> inlined: \<open>dbuf\<close> holds the sextets of the
  quantum read so far, line feeds and carriage returns are skipped, padding is only
  accepted at the end of the input, and the decoder is not strict about the unused low
  bits of the last sextet.
\<close>

definition encodeStd :: string where
  "encodeStd = ''ABCDEFGHIJKLMNOPQRSTUVWXYZabcdefghijklmnopqrstuvwxyz0123456789+/''"

definition padChar :: char where
  "padChar = CHR ''=''"

definition enc_char :: "32 word \<Rightarrow> char" where
  "enc_char v = encodeStd ! unat (v AND 0x3F)"

fun b64_Encode :: "bytes \<Rightarrow> string" where
  "b64_Encode (b0 # b1 # b2 # rest) =
     (let val = push_bit 16 (ucast b0) OR push_bit 8 (ucast b1) OR ucast b2 :: 32 word
      in enc_char (drop_bit 18 val) # enc_char (drop_bit 12 val) #
         enc_char (drop_bit 6 val) # enc_char val # b64_Encode rest)"
| "b64_Encode [b0, b1] =
     (let val = push_bit 16 (ucast b0) OR push_bit 8 (ucast b1) :: 32 word
      in [enc_char (drop_bit 18 val), enc_char (drop_bit 12 val),
          enc_char (drop_bit 6 val), padChar])"
| "b64_Encode [b0] =
     (let val = push_bit 16 (ucast b0) :: 32 word
      in [enc_char (drop_bit 18 val), enc_char (drop_bit 12 val), padChar, padChar])"
| "b64_Encode [] = []"

fun index_of :: "'a \<Rightarrow> 'a list \<Rightarrow> nat option" where
  "index_of c [] = None"
| "index_of c (x # xs) = (if c = x then Some 0 else map_option Suc (index_of c xs))"

definition decodeMap :: "char \<Rightarrow> 32 word option" where
  "decodeMap c = map_option of_nat (index_of c encodeStd)"

definition is_newline :: "char \<Rightarrow> bool" where
  "is_newline c \<longleftrightarrow> c = CHR 0x0A \<or> c = CHR 0x0D"

datatype b64_error = CorruptInputError

definition join_sextets :: "32 word \<Rightarrow> 32 word \<Rightarrow> 32 word \<Rightarrow> 32 word \<Rightarrow> 32 word" where
  "join_sextets d0 d1 d2 d3 = push_bit 18 d0 OR push_bit 12 d1 OR push_bit 6 d2 OR d3"

definition assemble :: "32 word list \<Rightarrow> bytes" where
  "assemble dbuf =
     (let d = dbuf @ replicate (4 - length dbuf) 0;
          val = join_sextets (d ! 0) (d ! 1) (d ! 2) (d ! 3)
      in take (length dbuf - 1) [ucast (drop_bit 16 val), ucast (drop_bit 8 val), ucast val])"

definition finish_padding :: "32 word list \<Rightarrow> string \<Rightarrow> b64_error + bytes" where
  "finish_padding dbuf rest =
     (if dropWhile is_newline rest \<noteq> [] then Inl CorruptInputError else Inr (assemble dbuf))"

fun b64_Decode :: "32 word list \<Rightarrow> string \<Rightarrow> b64_error + bytes" where
  "b64_Decode dbuf [] = (if dbuf = [] then Inr [] else Inl CorruptInputError)"
| "b64_Decode dbuf (c # rest) =
     (case decodeMap c of
        Some v \<Rightarrow>
          (if length dbuf = 3
           then (case b64_Decode [] rest of Inl e \<Rightarrow> Inl e
                 | Inr out \<Rightarrow> Inr (assemble (dbuf @ [v]) @ out))
           else b64_Decode (dbuf @ [v]) rest)
      | None \<Rightarrow>
          if is_newline c then b64_Decode dbuf rest
          else if c \<noteq> padChar then Inl CorruptInputError
          else if length dbuf < 2 then Inl CorruptInputError
          else if length dbuf = 2 then
            (case dropWhile is_newline rest of
               [] \<Rightarrow> Inl CorruptInputError
             | c' # rest' \<Rightarrow>
                 if c' \<noteq> padChar then Inl CorruptInputError
                 else finish_padding dbuf rest')
          else finish_padding dbuf rest)"

definition EncodeToString :: "bytes \<Rightarrow> string" where
  "EncodeToString src = b64_Encode src"

definition DecodeString :: "string \<Rightarrow> b64_error + bytes" where
  "DecodeString s = b64_Decode [] s"


subsection \<open>\<open>crypto/aes\<close>: the block cipher\<close>

text \<open>
  AES as in FIPS 197, for 128, 192 and 256 bit keys: the state is the list of its 16
  bytes in input order (column by column), the key schedule is a list of 4-byte words.
\<close>

definition sbox0 :: "byte list" where
  "sbox0 = [
   0x63, 0x7c, 0x77, 0x7b, 0xf2, 0x6b, 0x6f, 0xc5, 0x30, 0x01, 0x67, 0x2b, 0xfe, 0xd7, 0xab, 0x76,
   0xca, 0x82, 0xc9, 0x7d, 0xfa, 0x59, 0x47, 0xf0, 0xad, 0xd4, 0xa2, 0xaf, 0x9c, 0xa4, 0x72, 0xc0,
   0xb7, 0xfd, 0x93, 0x26, 0x36, 0x3f, 0xf7, 0xcc, 0x34, 0xa5, 0xe5, 0xf1, 0x71, 0xd8, 0x31, 0x15,
   0x04, 0xc7, 0x23, 0xc3, 0x18, 0x96, 0x05, 0x9a, 0x07, 0x12, 0x80, 0xe2, 0xeb, 0x27, 0xb2, 0x75,
   0x09, 0x83, 0x2c, 0x1a, 0x1b, 0x6e, 0x5a, 0xa0, 0x52, 0x3b, 0xd6, 0xb3, 0x29, 0xe3, 0x2f, 0x84,
   0x53, 0xd1, 0x00, 0xed, 0x20, 0xfc, 0xb1, 0x5b, 0x6a, 0xcb, 0xbe, 0x39, 0x4a, 0x4c, 0x58, 0xcf,
   0xd0, 0xef, 0xaa, 0xfb, 0x43, 0x4d, 0x33, 0x85, 0x45, 0xf9, 0x02, 0x7f, 0x50, 0x3c, 0x9f, 0xa8,
   0x51, 0xa3, 0x40, 0x8f, 0x92, 0x9d, 0x38, 0xf5, 0xbc, 0xb6, 0xda, 0x21, 0x10, 0xff, 0xf3, 0xd2,
   0xcd, 0x0c, 0x13, 0xec, 0x5f, 0x97, 0x44, 0x17, 0xc4, 0xa7, 0x7e, 0x3d, 0x64, 0x5d, 0x19, 0x73,
   0x60, 0x81, 0x4f, 0xdc, 0x22, 0x2a, 0x90, 0x88, 0x46, 0xee, 0xb8, 0x14, 0xde, 0x5e, 0x0b, 0xdb,
   0xe0, 0x32, 0x3a, 0x0a, 0x49, 0x06, 0x24, 0x5c, 0xc2, 0xd3, 0xac, 0x62, 0x91, 0x95, 0xe4, 0x79,
   0xe7, 0xc8, 0x37, 0x6d, 0x8d, 0xd5, 0x4e, 0xa9, 0x6c, 0x56, 0xf4, 0xea, 0x65, 0x7a, 0xae, 0x08,
   0xba, 0x78, 0x25, 0x2e, 0x1c, 0xa6, 0xb4, 0xc6, 0xe8, 0xdd, 0x74, 0x1f, 0x4b, 0xbd, 0x8b, 0x8a,
   0x70, 0x3e, 0xb5, 0x66, 0x48, 0x03, 0xf6, 0x0e, 0x61, 0x35, 0x57, 0xb9, 0x86, 0xc1, 0x1d, 0x9e,
   0xe1, 0xf8, 0x98, 0x11, 0x69, 0xd9, 0x8e, 0x94, 0x9b, 0x1e, 0x87, 0xe9, 0xce, 0x55, 0x28, 0xdf,
   0x8c, 0xa1, 0x89, 0x0d, 0xbf, 0xe6, 0x42, 0x68, 0x41, 0x99, 0x2d, 0x0f, 0xb0, 0x54, 0xbb, 0x16]"

definition SubByte :: "byte \<Rightarrow> byte" where
  "SubByte b = sbox0 ! unat b"

definition xtime :: "byte \<Rightarrow> byte" where
  "xtime b = (if bit b 7 then push_bit 1 b XOR 0x1B else push_bit 1 b)"

definition xor_bytes :: "bytes \<Rightarrow> bytes \<Rightarrow> bytes" where
  "xor_bytes a b = map2 (XOR) a b"

definition RotWord :: "bytes \<Rightarrow> bytes" where
  "RotWord w = drop 1 w @ take 1 w"

definition Rcon :: "nat \<Rightarrow> bytes" where
  "Rcon j = [(xtime ^^ (j - 1)) 1, 0, 0, 0]"

definition expand_step :: "nat \<Rightarrow> bytes list \<Rightarrow> nat \<Rightarrow> bytes list" where
  "expand_step Nk w i =
     (let temp = w ! (i - 1);
          temp' = (if i mod Nk = 0 then xor_bytes (map SubByte (RotWord temp)) (Rcon (i div Nk))
                   else if 6 < Nk \<and> i mod Nk = 4 then map SubByte temp
                   else temp)
      in w @ [xor_bytes (w ! (i - Nk)) temp'])"

fun words_of :: "bytes \<Rightarrow> bytes list" where
  "words_of (a # b # c # d # rest) = [a, b, c, d] # words_of rest"
| "words_of _ = []"

definition KeyExpansion :: "bytes \<Rightarrow> bytes list" where
  "KeyExpansion key =
     (let Nk = length key div 4; Nr = Nk + 6
      in foldl (expand_step Nk) (words_of key) [Nk ..< 4 * (Nr + 1)])"

definition ShiftRows :: "bytes \<Rightarrow> bytes" where
  "ShiftRows s = map (\<lambda>i. s ! ((i mod 4) + 4 * ((i div 4 + i mod 4) mod 4))) [0 ..< 16]"

definition mix_column :: "bytes \<Rightarrow> bytes" where
  "mix_column col =
     (let a0 = col ! 0; a1 = col ! 1; a2 = col ! 2; a3 = col ! 3
      in [xtime a0 XOR (xtime a1 XOR a1) XOR a2 XOR a3,
          a0 XOR xtime a1 XOR (xtime a2 XOR a2) XOR a3,
          a0 XOR a1 XOR xtime a2 XOR (xtime a3 XOR a3),
          (xtime a0 XOR a0) XOR a1 XOR a2 XOR xtime a3])"

definition MixColumns :: "bytes \<Rightarrow> bytes" where
  "MixColumns s = concat (map mix_column (words_of s))"

definition AddRoundKey :: "bytes list \<Rightarrow> nat \<Rightarrow> bytes \<Rightarrow> bytes" where
  "AddRoundKey w r s = xor_bytes s (concat (take 4 (drop (4 * r) w)))"

definition aes_round :: "bytes list \<Rightarrow> bytes \<Rightarrow> nat \<Rightarrow> bytes" where
  "aes_round w s r = AddRoundKey w r (MixColumns (ShiftRows (map SubByte s)))"

definition aes_encrypt_block :: "bytes list \<Rightarrow> bytes \<Rightarrow> bytes" where
  "aes_encrypt_block w inp =
     (let Nr = length w div 4 - 1;
          s = foldl (aes_round w) (AddRoundKey w 0 inp) [1 ..< Nr]
      in AddRoundKey w Nr (ShiftRows (map SubByte s)))"

text \<open>A block as a 128-bit word, the first byte in the most significant position.\<close>

definition block_of_bytes :: "bytes \<Rightarrow> block" where
  "block_of_bytes bs = foldl (\<lambda>w b. push_bit 8 w OR ucast b) 0 bs"

definition bytes_of_block :: "block \<Rightarrow> bytes" where
  "bytes_of_block w = map (\<lambda>i. ucast (drop_bit (8 * (15 - i)) w)) [0 ..< 16]"

definition aes_block :: "bytes \<Rightarrow> block \<Rightarrow> block" where
  "aes_block key b = block_of_bytes (aes_encrypt_block (KeyExpansion key) (bytes_of_block b))"


subsection \<open>\<open>crypto/cipher\<close>: Galois counter mode\<close>

text \<open>
  GCM as in NIST SP 800-38D with the standard 12-byte nonce and 16-byte tag. A block is a
  128-bit word whose most significant byte is the first byte of the block. \<open>gcm_mul\<close> is
  the multiplication in GF(2^128) of the standard, \<open>counterCrypt\<close> the counter mode
  keystream, \<open>gcm_auth\<close> the tag over the additional data and the ciphertext.
\<close>

definition gcm_mul_step :: "block \<Rightarrow> nat \<Rightarrow> block \<times> block \<Rightarrow> block \<times> block" where
  "gcm_mul_step x i zv =
     (let z = fst zv; v = snd zv
      in (if bit x (127 - i) then z XOR v else z,
          if bit v 0 then drop_bit 1 v XOR push_bit 120 0xE1 else drop_bit 1 v))"

definition gcm_mul :: "block \<Rightarrow> block \<Rightarrow> block" where
  "gcm_mul x y = fst (fold (gcm_mul_step x) [0 ..< 128] (0, y))"

fun blocks_of :: "nat \<Rightarrow> bytes \<Rightarrow> block list" where
  "blocks_of 0 bs = []"
| "blocks_of (Suc n) bs =
     block_of_bytes (take 16 bs @ replicate (16 - length bs) 0) # blocks_of n (drop 16 bs)"

definition pad_blocks :: "bytes \<Rightarrow> block list" where
  "pad_blocks bs = blocks_of ((length bs + 15) div 16) bs"

definition ghash :: "block \<Rightarrow> block list \<Rightarrow> block" where
  "ghash h xs = foldl (\<lambda>y x. gcm_mul (y XOR x) h) 0 xs"

definition gcmInc32 :: "block \<Rightarrow> block" where
  "gcmInc32 cb = (cb AND NOT (mask 32)) OR ((cb + 1) AND mask 32)"

fun counterCrypt_n :: "nat \<Rightarrow> (block \<Rightarrow> block) \<Rightarrow> block \<Rightarrow> bytes \<Rightarrow> bytes" where
  "counterCrypt_n 0 E cb xs = []"
| "counterCrypt_n (Suc n) E cb xs =
     xor_bytes (take 16 xs) (bytes_of_block (E cb)) @ counterCrypt_n n E (gcmInc32 cb) (drop 16 xs)"

definition counterCrypt :: "(block \<Rightarrow> block) \<Rightarrow> block \<Rightarrow> bytes \<Rightarrow> bytes" where
  "counterCrypt E cb xs = counterCrypt_n ((length xs + 15) div 16) E cb xs"

definition deriveCounter :: "bytes \<Rightarrow> block" where
  "deriveCounter nonce = block_of_bytes (nonce @ [0, 0, 0, 1])"

definition gcm_auth :: "(block \<Rightarrow> block) \<Rightarrow> bytes \<Rightarrow> bytes \<Rightarrow> block \<Rightarrow> bytes" where
  "gcm_auth E ciphertext additionalData tagMask =
     (let h = E 0;
          lens = push_bit 64 (of_nat (length additionalData * 8)) OR of_nat (length ciphertext * 8);
          y = ghash h (pad_blocks additionalData @ pad_blocks ciphertext @ [lens])
      in bytes_of_block (y XOR tagMask))"


text \<open>
  The errors of the envelope cipher. \<open>InvalidKeyLength\<close> is "key must be 32 bytes for
  AES-256", \<open>KeySizeError\<close> the error of \<open>aes.NewCipher\<close>, \<open>RandReadError\<close> a failed read
  of \<open>rand.Reader\<close>, \<open>Base64DecodeFailed\<close> "base64 decode failed", \<open>MalformedCiphertext\<close>
  "ciphertext too short", \<open>AuthenticationFailed\<close> the error of \<open>Open\<close>; the last two are
  the panics of \<open>Seal\<close> and \<open>Open\<close>.
\<close>

datatype cipher_error =
    InvalidKeyLength
  | KeySizeError nat
  | RandReadError
  | Base64DecodeFailed
  | MalformedCiphertext
  | AuthenticationFailed
  | PanicNonceLength
  | PanicMessageTooLarge

definition aes_NewCipher :: "bytes \<Rightarrow> cipher_error + (block \<Rightarrow> block)" where
  "aes_NewCipher key =
     (if length key = 16 \<or> length key = 24 \<or> length key = 32
      then Inr (aes_block key) else Inl (KeySizeError (length key)))"

definition gcmBlockSize :: nat where "gcmBlockSize = 16"
definition gcmTagSize :: nat where "gcmTagSize = 16"
definition gcmStandardNonceSize :: nat where "gcmStandardNonceSize = 12"

record gcm =
  cipher :: "block \<Rightarrow> block"
  nonceSize :: nat
  tagSize :: nat

definition cipher_NewGCM :: "(block \<Rightarrow> block) \<Rightarrow> cipher_error + gcm" where
  "cipher_NewGCM b = Inr \<lparr>cipher = b, nonceSize = gcmStandardNonceSize, tagSize = gcmTagSize\<rparr>"

text \<open>
  \<open>Seal\<close> and \<open>Open\<close> of the Go library. \<open>Seal\<close> panics on a nonce of the wrong length
  and on a plaintext of more than \<open>(2 ^ 32 - 2) * 16\<close> bytes. \<open>Open\<close> returns its one
  error for a ciphertext shorter than the tag, for one that is too long and for a tag that
  does not verify.
\<close>

definition gcm_Seal :: "gcm \<Rightarrow> bytes \<Rightarrow> bytes \<Rightarrow> bytes \<Rightarrow> bytes \<Rightarrow> cipher_error + bytes" where
  "gcm_Seal g dst nonce plaintext data =
     (if length nonce \<noteq> nonceSize g then Inl PanicNonceLength
      else if (2 ^ 32 - 2) * gcmBlockSize < length plaintext then Inl PanicMessageTooLarge
      else
        let counter = deriveCounter nonce;
            tagMask = cipher g counter;
            out = counterCrypt (cipher g) (gcmInc32 counter) plaintext;
            tag = gcm_auth (cipher g) out data tagMask
        in Inr (dst @ out @ tag))"

definition gcm_Open :: "gcm \<Rightarrow> bytes \<Rightarrow> bytes \<Rightarrow> bytes \<Rightarrow> bytes \<Rightarrow> cipher_error + bytes" where
  "gcm_Open g dst nonce ciphertext data =
     (if length nonce \<noteq> nonceSize g then Inl PanicNonceLength
      else if length ciphertext < tagSize g then Inl AuthenticationFailed
      else if (2 ^ 32 - 2) * gcmBlockSize + tagSize g < length ciphertext then Inl AuthenticationFailed
      else
        let tag = drop (length ciphertext - tagSize g) ciphertext;
            ct = take (length ciphertext - tagSize g) ciphertext;
            counter = deriveCounter nonce;
            tagMask = cipher g counter;
            expectedTag = gcm_auth (cipher g) ct data tagMask
        in if expectedTag \<noteq> tag then Inl AuthenticationFailed
           else Inr (dst @ counterCrypt (cipher g) (gcmInc32 counter) ct))"

text \<open>
  \<open>io.ReadFull(rand.Reader, nonce)\<close>: \<open>reader\<close> is what the source of randomness can
  deliver; the read fails when that is less than the buffer asks for.
\<close>

definition io_ReadFull :: "bytes \<Rightarrow> nat \<Rightarrow> cipher_error + bytes" where
  "io_ReadFull reader n = (if length reader < n then Inl RandReadError else Inr (take n reader))"

section \<open>The envelope cipher\<close>

definition EncryptWithDataKey :: "bytes \<Rightarrow> bytes \<Rightarrow> bytes \<Rightarrow> cipher_error + string" where
  "EncryptWithDataKey data key rand_Reader =
     (if length key \<noteq> 32 then Inl InvalidKeyLength
      else case aes_NewCipher key of
        Inl err \<Rightarrow> Inl err
      | Inr block \<Rightarrow>
          (case cipher_NewGCM block of
             Inl err \<Rightarrow> Inl err
           | Inr g \<Rightarrow>
               (case io_ReadFull rand_Reader (nonceSize g) of
                  Inl err \<Rightarrow> Inl err
                | Inr nonce \<Rightarrow>
                    (case gcm_Seal g nonce nonce data [] of
                       Inl err \<Rightarrow> Inl err
                     | Inr ciphertext \<Rightarrow> Inr (EncodeToString ciphertext)))))"

definition DecryptWithDataKey :: "string \<Rightarrow> bytes \<Rightarrow> cipher_error + bytes" where
  "DecryptWithDataKey encodedData key =
     (if length key \<noteq> 32 then Inl InvalidKeyLength
      else case DecodeString encodedData of
        Inl err \<Rightarrow> Inl Base64DecodeFailed
      | Inr data \<Rightarrow>
          (case aes_NewCipher key of
             Inl err \<Rightarrow> Inl err
           | Inr block \<Rightarrow>
               (case cipher_NewGCM block of
                  Inl err \<Rightarrow> Inl err
                | Inr g \<Rightarrow>
                    if length data < nonceSize g then Inl MalformedCiphertext
                    else gcm_Open g [] (take (nonceSize g) data) (drop (nonceSize g) data) [])))"


section \<open>The KMS manager\<close>

text \<open>
  A \<open>time.Time\<close> is a number of nanoseconds since the epoch and a \<open>time.Duration\<close> a
  number of nanoseconds: \<open>t.After(u)\<close> is \<open>u < t\<close>, \<open>t.Before(u)\<close> is \<open>t < u\<close>,
  \<open>t.Add(d)\<close> is \<open>t + d\<close> and \<open>t.Unix()\<close> is \<open>t div 1000000000\<close>.

  A \<open>[]byte\<close> held in a struct is the address of its buffer in \<open>heap\<close>, so that zeroing
  a key in place is visible through every reference to the buffer. A buffer is allocated
  at the end of the heap; \<open>load\<close> reads one.
\<close>

type_synonym time = int
type_synonym duration = int
type_synonym addr = nat

record CurrentDataKey =
  PlaintextKey :: addr
  EncryptedKey :: string
  GeneratedAt :: time
  ExpiresAt :: time

record CachedKey =
  Key :: addr
  ExpiresAt :: time

text \<open>
  The external collaborators are oracles indexed by the number of calls made so far: the
  reading of the \<open>n\<close>-th \<open>time.Now()\<close>, the answer of the KMS to the \<open>n\<close>-th request
  sent through the client (\<open>GenerateDataKey\<close> answers with the plaintext key and the
  ciphertext blob, \<open>Decrypt\<close> with the plaintext), what \<open>rand.Reader\<close> delivers to the
  \<open>n\<close>-th encryption, and whether the AWS configuration loads.
\<close>

datatype kms_error = KmsError string

datatype kms_call =
    GenerateDataKeyCall string int
  | DecryptCall bytes string

record env =
  time_Now :: "nat \<Rightarrow> time"
  kms_GenerateDataKey :: "nat \<Rightarrow> string \<Rightarrow> int \<Rightarrow> kms_error + bytes \<times> bytes"
  kms_Decrypt :: "nat \<Rightarrow> bytes \<Rightarrow> string \<Rightarrow> kms_error + bytes"
  rand_Reader :: "nat \<Rightarrow> bytes"
  config_LoadDefaultConfig :: bool

text \<open>
  \<open>client\<close> is the list of the requests sent to the KMS so far. The map
  \<open>decryptionCache\<close> is an association list, read with \<open>map_of\<close>, written with
  \<open>AList.update\<close> and \<open>AList.delete\<close>. The fields after \<open>keyRotationInterval\<close> are the
  state of the process around the manager: the byte buffers, the number of clock readings
  and the number of encryptions.
\<close>

record KMSManager =
  client :: "kms_call list"
  keyID :: string
  currentDataKey :: "CurrentDataKey option"
  decryptionCache :: "(string \<times> CachedKey) list"
  cacheTTL :: duration
  keyRotationInterval :: duration

record world = KMSManager +
  heap :: "bytes list"
  ticks :: nat
  encrypts :: nat

datatype mgr_error =
    ConfigLoadFailed
  | KeyGenerationFailed kms_error
  | EncryptedKeyDecodeFailed
  | KeyDecryptionFailed kms_error

definition load :: "bytes list \<Rightarrow> addr \<Rightarrow> bytes" where
  "load h a = (if a < length h then h ! a else [])"

definition alloc :: "bytes list \<Rightarrow> bytes \<Rightarrow> addr \<times> bytes list" where
  "alloc h b = (length h, h @ [b])"

definition zero_key :: "bytes list \<Rightarrow> addr \<Rightarrow> bytes list" where
  "zero_key h a = h[a := map (\<lambda>_. 0) (load h a)]"

definition time_now :: "env \<Rightarrow> world \<Rightarrow> time \<times> world" where
  "time_now e w = (time_Now e (ticks w), w\<lparr>ticks := Suc (ticks w)\<rparr>)"

definition client_GenerateDataKey ::
  "env \<Rightarrow> string \<Rightarrow> int \<Rightarrow> world \<Rightarrow> (kms_error + addr \<times> bytes) \<times> world" where
  "client_GenerateDataKey e KeyId timestamp w =
     (let w1 = w\<lparr>client := client w @ [GenerateDataKeyCall KeyId timestamp]\<rparr>
      in case kms_GenerateDataKey e (length (client w)) KeyId timestamp of
           Inl err \<Rightarrow> (Inl err, w1)
         | Inr (Plaintext, CiphertextBlob) \<Rightarrow>
             (case alloc (heap w1) Plaintext of
                (a, h) \<Rightarrow> (Inr (a, CiphertextBlob), w1\<lparr>heap := h\<rparr>)))"

definition client_Decrypt ::
  "env \<Rightarrow> bytes \<Rightarrow> string \<Rightarrow> world \<Rightarrow> (kms_error + addr) \<times> world" where
  "client_Decrypt e CiphertextBlob KeyId w =
     (let w1 = w\<lparr>client := client w @ [DecryptCall CiphertextBlob KeyId]\<rparr>
      in case kms_Decrypt e (length (client w)) CiphertextBlob KeyId of
           Inl err \<Rightarrow> (Inl err, w1)
         | Inr Plaintext \<Rightarrow>
             (case alloc (heap w1) Plaintext of (a, h) \<Rightarrow> (Inr a, w1\<lparr>heap := h\<rparr>)))"

text \<open>\<open>rotateDataKeyLocked\<close>: the result is the returned \<open>error\<close>, \<open>None\<close> for \<open>nil\<close>.\<close>

definition rotateDataKeyLocked :: "env \<Rightarrow> world \<Rightarrow> mgr_error option \<times> world" where
  "rotateDataKeyLocked e w =
     (case time_now e w of
        (ts, w1) \<Rightarrow>
          (case client_GenerateDataKey e (keyID w1) (ts div 1000000000) w1 of
             (Inl err, w2) \<Rightarrow> (Some (KeyGenerationFailed err), w2)
           | (Inr (Plaintext, CiphertextBlob), w2) \<Rightarrow>
               (let w3 = (case currentDataKey w2 of
                            None \<Rightarrow> w2
                          | Some old \<Rightarrow> w2\<lparr>heap := zero_key (heap w2) (PlaintextKey old)\<rparr>)
                in case time_now e w3 of
                     (now, w4) \<Rightarrow>
                       (None, w4\<lparr>currentDataKey := Some
                          \<lparr>PlaintextKey = Plaintext,
                           EncryptedKey = EncodeToString CiphertextBlob,
                           GeneratedAt = now,
                           ExpiresAt = now + keyRotationInterval w4\<rparr>\<rparr>))))"

definition rotateDataKey :: "env \<Rightarrow> world \<Rightarrow> mgr_error option \<times> world" where
  "rotateDataKey e w = rotateDataKeyLocked e w"

definition NewKMSManager :: "env \<Rightarrow> string \<Rightarrow> duration \<Rightarrow> duration \<Rightarrow> mgr_error + world" where
  "NewKMSManager e keyID' cacheTTL' rotationInterval =
     (if \<not> config_LoadDefaultConfig e then Inl ConfigLoadFailed
      else
        let manager = \<lparr>client = [], keyID = keyID', currentDataKey = None,
                       decryptionCache = [], cacheTTL = cacheTTL',
                       keyRotationInterval = rotationInterval,
                       heap = [], ticks = 0, encrypts = 0\<rparr>
        in case rotateDataKey e manager of
             (Some err, w) \<Rightarrow> Inl err
           | (None, w) \<Rightarrow> Inr w)"

text \<open>
  The test \<open>currentKey == nil || time.Now().After(currentKey.ExpiresAt)\<close>, which reads the
  clock only for a key that is there.
\<close>

definition rotation_needed :: "env \<Rightarrow> CurrentDataKey option \<Rightarrow> world \<Rightarrow> bool \<times> world" where
  "rotation_needed e currentKey w =
     (case currentKey of
        None \<Rightarrow> (True, w)
      | Some ck \<Rightarrow> (case time_now e w of (now, w1) \<Rightarrow> (CurrentDataKey.ExpiresAt ck < now, w1)))"

text \<open>\<open>GetCurrentDataKey\<close> returns a pointer, \<open>None\<close> for \<open>nil\<close>, or an error.\<close>

definition GetCurrentDataKey ::
  "env \<Rightarrow> world \<Rightarrow> (mgr_error + CurrentDataKey option) \<times> world" where
  "GetCurrentDataKey e w =
     (let currentKey = currentDataKey w
      in case rotation_needed e currentKey w of
           (False, w1) \<Rightarrow> (Inr currentKey, w1)
         | (True, w1) \<Rightarrow>
             (case rotation_needed e (currentDataKey w1) w1 of
                (False, w2) \<Rightarrow> (Inr (currentDataKey w2), w2)
              | (True, w2) \<Rightarrow>
                  (case rotateDataKeyLocked e w2 of
                     (Some err, w3) \<Rightarrow> (Inl err, w3)
                   | (None, w3) \<Rightarrow> (Inr (currentDataKey w3), w3))))"

text \<open>
  \<open>DecryptDataKey\<close>, in three steps as in the source: the current key, the decryption
  cache, the KMS. The cache is read under \<open>encryptedKey:masterKeyARN\<close> and written under
  \<open>encryptedKey\<close>. The result is the address of the key's buffer.
\<close>

definition decrypt_with_KMS ::
  "env \<Rightarrow> string \<Rightarrow> string \<Rightarrow> world \<Rightarrow> (mgr_error + addr) \<times> world" where
  "decrypt_with_KMS e encryptedKey masterKeyARN w =
     (case DecodeString encryptedKey of
        Inl err \<Rightarrow> (Inl EncryptedKeyDecodeFailed, w)
      | Inr encryptedBlob \<Rightarrow>
          (case client_Decrypt e encryptedBlob masterKeyARN w of
             (Inl err, w1) \<Rightarrow> (Inl (KeyDecryptionFailed err), w1)
           | (Inr Plaintext, w1) \<Rightarrow>
               (case time_now e w1 of
                  (now, w2) \<Rightarrow>
                    (Inr Plaintext,
                     w2\<lparr>decryptionCache :=
                          AList.update encryptedKey
                            \<lparr>Key = Plaintext, ExpiresAt = now + cacheTTL w2\<rparr>
                            (decryptionCache w2)\<rparr>))))"

definition check_cache ::
  "env \<Rightarrow> string \<Rightarrow> string \<Rightarrow> world \<Rightarrow> addr option \<times> world" where
  "check_cache e encryptedKey masterKeyARN w =
     (let cacheKey = encryptedKey @ '':'' @ masterKeyARN
      in case map_of (decryptionCache w) cacheKey of
           None \<Rightarrow> (None, w)
         | Some cached \<Rightarrow>
             (case time_now e w of
                (now, w1) \<Rightarrow>
                  (if now < CachedKey.ExpiresAt cached then Some (Key cached) else None, w1)))"

definition current_key_match :: "world \<Rightarrow> string \<Rightarrow> addr option" where
  "current_key_match w encryptedKey =
     (case currentDataKey w of
        None \<Rightarrow> None
      | Some ck \<Rightarrow> if EncryptedKey ck = encryptedKey then Some (PlaintextKey ck) else None)"

definition DecryptDataKey ::
  "env \<Rightarrow> string \<Rightarrow> string \<Rightarrow> world \<Rightarrow> (mgr_error + addr) \<times> world" where
  "DecryptDataKey e encryptedKey masterKeyARN w =
     (case current_key_match w encryptedKey of
        Some key \<Rightarrow> (Inr key, w)
      | None \<Rightarrow>
          (case check_cache e encryptedKey masterKeyARN w of
             (Some key, w1) \<Rightarrow> (Inr key, w1)
           | (None, w1) \<Rightarrow> decrypt_with_KMS e encryptedKey masterKeyARN w1))"

text \<open>\<open>CleanupCache\<close>: the loop over the cache zeroes and deletes every expired entry.\<close>

fun cleanup_loop :: "time \<Rightarrow> (string \<times> CachedKey) list \<Rightarrow> world \<Rightarrow> nat \<Rightarrow> world \<times> nat" where
  "cleanup_loop now [] w cleanedCount = (w, cleanedCount)"
| "cleanup_loop now ((key, cached) # rest) w cleanedCount =
     (if CachedKey.ExpiresAt cached < now
      then cleanup_loop now rest
             (w\<lparr>heap := zero_key (heap w) (Key cached),
                decryptionCache := AList.delete key (decryptionCache w)\<rparr>)
             (cleanedCount + 1)
      else cleanup_loop now rest w cleanedCount)"

definition CleanupCache :: "env \<Rightarrow> world \<Rightarrow> world" where
  "CleanupCache e w =
     (case time_now e w of (now, w1) \<Rightarrow> fst (cleanup_loop now (decryptionCache w1) w1 0))"

text \<open>
  The state in which a successful rotation leaves the manager, given the answer of the
  KMS: the request is logged, the new buffer is allocated, the old one zeroed and the new
  key installed (lemma \<open>rotateDataKeyLocked_success\<close> below).
\<close>

definition install_key :: "env \<Rightarrow> world \<Rightarrow> bytes \<Rightarrow> bytes \<Rightarrow> world" where
  "install_key e w Plaintext CiphertextBlob =
     w\<lparr>client := client w @ [GenerateDataKeyCall (keyID w) (time_Now e (ticks w) div 1000000000)],
       currentDataKey := Some
         \<lparr>PlaintextKey = length (heap w),
          EncryptedKey = EncodeToString CiphertextBlob,
          GeneratedAt = time_Now e (Suc (ticks w)),
          ExpiresAt = time_Now e (Suc (ticks w)) + keyRotationInterval w\<rparr>,
       heap := (case currentDataKey w of
                  None \<Rightarrow> heap w @ [Plaintext]
                | Some old \<Rightarrow> zero_key (heap w @ [Plaintext]) (PlaintextKey old)),
       ticks := Suc (Suc (ticks w))\<rparr>"

text \<open>
  The keys of the decryption cache. The one write to the cache, in \<open>DecryptDataKey\<close>, is
  made under \<open>encryptedKey\<close> after \<open>DecodeString\<close> has accepted it, so in every state that
  the manager reaches every key of the cache is a string that \<open>DecodeString\<close> accepts
  (lemmas \<open>NewKMSManager_cache_keys_decoded\<close> and following).
\<close>

definition cache_keys_decoded :: "world \<Rightarrow> bool" where
  "cache_keys_decoded w \<longleftrightarrow> (\<forall>key \<in> fst ` set (decryptionCache w). \<not> isl (DecodeString key))"


section \<open>The codec server\<close>

record PayloadData =
  Metadata :: "string \<rightharpoonup> string"
  Data :: string
  KMSKeyID :: string
  EncryptedDataKey :: string
  Algorithm :: string

record CodecRequest =
  Payloads :: "PayloadData list"

record CodecResponse =
  Payloads :: "PayloadData list"

text \<open>
  A request is its method and the outcome of decoding its body as JSON, \<open>None\<close> when the
  decoder fails. A handler answers with an error (a call of \<open>http.Error\<close>, after which it
  returns without writing a payload) or with the response batch. The errors, in the order
  of the source: "Method not allowed" (405), "Invalid JSON" (400), "Key retrieval failed"
  (500), the dereference of a \<open>nil\<close> key, "Encryption failed" (500), "Missing encrypted
  data key" (400), "Key decryption failed" (500) and "Data decryption failed" (500).
\<close>

record http_Request =
  Method :: string
  Body :: "CodecRequest option"

datatype handler_error =
    MethodNotAllowed
  | MalformedRequest
  | KeyRetrievalFailed mgr_error
  | NilKeyDereference
  | EncryptionFailed cipher_error
  | MissingKeyMaterial
  | KeyResolutionFailed mgr_error
  | DataDecryptionFailed cipher_error

definition bytes_of_string :: "string \<Rightarrow> bytes" where
  "bytes_of_string s = map (\<lambda>c. of_nat (of_char c)) s"

definition encode_payload ::
  "env \<Rightarrow> PayloadData \<Rightarrow> world \<Rightarrow> (handler_error + PayloadData) \<times> world" where
  "encode_payload e payload w =
     (case GetCurrentDataKey e w of
        (Inl err, w1) \<Rightarrow> (Inl (KeyRetrievalFailed err), w1)
      | (Inr currentKey, w1) \<Rightarrow>
          (let dataToEncrypt =
                 (if Data payload \<noteq> [] then
                    (case DecodeString (Data payload) of
                       Inr decoded \<Rightarrow> decoded
                     | Inl err \<Rightarrow> bytes_of_string (Data payload))
                  else [])
           in case currentKey of
                None \<Rightarrow> (Inl NilKeyDereference, w1)
              | Some ck \<Rightarrow>
                  (let w2 = w1\<lparr>encrypts := Suc (encrypts w1)\<rparr>
                   in case EncryptWithDataKey dataToEncrypt (load (heap w1) (PlaintextKey ck))
                             (rand_Reader e (encrypts w1)) of
                        Inl err \<Rightarrow> (Inl (EncryptionFailed err), w2)
                      | Inr encryptedData \<Rightarrow>
                          (Inr \<lparr>Metadata = [''encoding'' \<mapsto> ''binary/encrypted''],
                                Data = encryptedData,
                                KMSKeyID = keyID w2,
                                EncryptedDataKey = EncryptedKey ck,
                                Algorithm = ''AES-256-GCM''\<rparr>, w2))))"

fun encode_loop ::
  "env \<Rightarrow> PayloadData list \<Rightarrow> PayloadData list \<Rightarrow> world \<Rightarrow>
   (handler_error + PayloadData list) \<times> world" where
  "encode_loop e [] response w = (Inr response, w)"
| "encode_loop e (payload # rest) response w =
     (if Metadata payload ''encoding'' = None \<or> Metadata payload ''encoding'' = Some ''json/plain''
      then (case encode_payload e payload w of
              (Inl err, w1) \<Rightarrow> (Inl err, w1)
            | (Inr encodedPayload, w1) \<Rightarrow> encode_loop e rest (response @ [encodedPayload]) w1)
      else encode_loop e rest response w)"

definition handleEncode ::
  "env \<Rightarrow> http_Request \<Rightarrow> world \<Rightarrow> (handler_error + CodecResponse) \<times> world" where
  "handleEncode e r w =
     (if Method r \<noteq> ''POST'' then (Inl MethodNotAllowed, w)
      else case Body r of
        None \<Rightarrow> (Inl MalformedRequest, w)
      | Some req \<Rightarrow>
          (case encode_loop e (CodecRequest.Payloads req) [] w of
             (Inl err, w1) \<Rightarrow> (Inl err, w1)
           | (Inr response, w1) \<Rightarrow> (Inr \<lparr>Payloads = response\<rparr>, w1)))"

definition decode_payload ::
  "env \<Rightarrow> PayloadData \<Rightarrow> world \<Rightarrow> (handler_error + PayloadData) \<times> world" where
  "decode_payload e payload w =
     (if EncryptedDataKey payload = [] then (Inl MissingKeyMaterial, w)
      else case DecryptDataKey e (EncryptedDataKey payload) (KMSKeyID payload) w of
        (Inl err, w1) \<Rightarrow> (Inl (KeyResolutionFailed err), w1)
      | (Inr dataKey, w1) \<Rightarrow>
          (case DecryptWithDataKey (Data payload) (load (heap w1) dataKey) of
             Inl err \<Rightarrow> (Inl (DataDecryptionFailed err), w1)
           | Inr decryptedData \<Rightarrow>
               (Inr \<lparr>Metadata = [''encoding'' \<mapsto> ''json/plain''],
                     Data = EncodeToString decryptedData,
                     KMSKeyID = [],
                     EncryptedDataKey = [],
                     Algorithm = []\<rparr>, w1)))"

fun decode_loop ::
  "env \<Rightarrow> PayloadData list \<Rightarrow> PayloadData list \<Rightarrow> world \<Rightarrow>
   (handler_error + PayloadData list) \<times> world" where
  "decode_loop e [] response w = (Inr response, w)"
| "decode_loop e (payload # rest) response w =
     (if Metadata payload ''encoding'' \<noteq> Some ''binary/encrypted''
      then decode_loop e rest (response @ [payload]) w
      else (case decode_payload e payload w of
              (Inl err, w1) \<Rightarrow> (Inl err, w1)
            | (Inr decodedPayload, w1) \<Rightarrow> decode_loop e rest (response @ [decodedPayload]) w1))"

definition handleDecode ::
  "env \<Rightarrow> http_Request \<Rightarrow> world \<Rightarrow> (handler_error + CodecResponse) \<times> world" where
  "handleDecode e r w =
     (if Method r \<noteq> ''POST'' then (Inl MethodNotAllowed, w)
      else case Body r of
        None \<Rightarrow> (Inl MalformedRequest, w)
      | Some req \<Rightarrow>
          (case decode_loop e (CodecRequest.Payloads req) [] w of
             (Inl err, w1) \<Rightarrow> (Inl err, w1)
           | (Inr response, w1) \<Rightarrow> (Inr \<lparr>Payloads = response\<rparr>, w1)))"


section \<open>Example environments and states\<close>

text \<open>
  Concrete environments and manager states at which the theorems below are instantiated:
  a KMS that is down, one that returns the same data key and blob to every request, one
  that returns a new blob to each request, a manager whose key has expired and the
  manager that \<open>NewKMSManager\<close> builds against the third KMS.
\<close>

definition env_kms_down :: env where
  "env_kms_down =
     \<lparr>time_Now = (\<lambda>n. 7200000000000 + int n),
      kms_GenerateDataKey = (\<lambda>n KeyId ts. Inl (KmsError ''unavailable'')),
      kms_Decrypt = (\<lambda>n blob KeyId. Inl (KmsError ''unavailable'')),
      rand_Reader = (\<lambda>n. replicate 12 0),
      config_LoadDefaultConfig = True\<rparr>"

definition world_expired_key :: world where
  "world_expired_key =
     \<lparr>client = [GenerateDataKeyCall ''arn:aws:kms:key/1'' 0],
      keyID = ''arn:aws:kms:key/1'',
      currentDataKey = Some \<lparr>PlaintextKey = 0, EncryptedKey = ''QUJD'',
                              GeneratedAt = 0, ExpiresAt = 3600000000000\<rparr>,
      decryptionCache = [],
      cacheTTL = 86400000000000,
      keyRotationInterval = 3600000000000,
      heap = [replicate 32 0x5A],
      ticks = 2,
      encrypts = 0\<rparr>"

definition env_constant_kms :: env where
  "env_constant_kms =
     \<lparr>time_Now = (\<lambda>n. int n),
      kms_GenerateDataKey = (\<lambda>n KeyId ts. Inr (replicate 32 0x11, [0x41, 0x42, 0x43])),
      kms_Decrypt = (\<lambda>n blob KeyId. Inr (replicate 32 0x22)),
      rand_Reader = (\<lambda>n. replicate 12 0),
      config_LoadDefaultConfig = True\<rparr>"

definition env_fresh_kms :: env where
  "env_fresh_kms =
     \<lparr>time_Now = (\<lambda>n. int n),
      kms_GenerateDataKey = (\<lambda>n KeyId ts. Inr (replicate 32 (of_nat n), [of_nat n, 0x42, 0x43])),
      kms_Decrypt = (\<lambda>n blob KeyId. Inr (replicate 32 0x22)),
      rand_Reader = (\<lambda>n. replicate 12 0),
      config_LoadDefaultConfig = True\<rparr>"

definition world_started :: world where
  "world_started =
     \<lparr>client = [GenerateDataKeyCall ''arn:aws:kms:key/1'' 0],
      keyID = ''arn:aws:kms:key/1'',
      currentDataKey = Some \<lparr>PlaintextKey = 0, EncryptedKey = EncodeToString [0, 0x42, 0x43],
                              GeneratedAt = 1, ExpiresAt = 3600000000001\<rparr>,
      decryptionCache = [],
      cacheTTL = 86400000000000,
      keyRotationInterval = 3600000000000,
      heap = [replicate 32 0],
      ticks = 2,
      encrypts = 0\<rparr>"

text \<open>
  A KMS that decrypts once and is unavailable afterwards, under a clock that advances by
  more than the cache TTL between two readings.
\<close>

definition env_flaky_kms :: env where
  "env_flaky_kms =
     \<lparr>time_Now = (\<lambda>n. int n * 100000000000000),
      kms_GenerateDataKey = (\<lambda>n KeyId ts. Inr (replicate 32 0x11, [0x41, 0x42, 0x43])),
      kms_Decrypt = (\<lambda>n blob KeyId.
         if n = 1 then Inr (replicate 32 0x22) else Inl (KmsError ''unavailable'')),
      rand_Reader = (\<lambda>n. replicate 12 0),
      config_LoadDefaultConfig = True\<rparr>"

text \<open>
  The manager built by \<open>NewKMSManager\<close> after it has resolved the blob \<open>QUJD\<close> once
  against the KMS that decrypts once, under the clock that advances by more than the TTL.
\<close>

definition world_after_first_call :: world where
  "world_after_first_call =
     \<lparr>client = [GenerateDataKeyCall ''arn:aws:kms:key/1'' 0,
                DecryptCall [0x41, 0x42, 0x43] ''arn:aws:kms:key/1''],
      keyID = ''arn:aws:kms:key/1'',
      currentDataKey = Some \<lparr>PlaintextKey = 0, EncryptedKey = EncodeToString [0, 0x42, 0x43],
                              GeneratedAt = 1, ExpiresAt = 3600000000001\<rparr>,
      decryptionCache = [(''QUJD'', \<lparr>Key = 1, ExpiresAt = 286400000000000\<rparr>)],
      cacheTTL = 86400000000000,
      keyRotationInterval = 3600000000000,
      heap = [replicate 32 0, replicate 32 0x22],
      ticks = 3,
      encrypts = 0\<rparr>"

text \<open>
  Payloads and requests: the plain payload of the specification's scenario (the JSON
  document \<open>{"id":123}\<close> in base64) with a second metadata entry, a payload with another
  encoding, an encrypted payload without its encrypted data key, one whose encrypted data
  key is not base64, and one whose encrypted data key is that of an older data key; the
  POST request with a batch of payloads; a KMS that returns an empty blob and the manager
  that \<open>NewKMSManager\<close> builds against it with an empty master key identifier.
\<close>

definition payload_plain :: PayloadData where
  "payload_plain =
     \<lparr>Metadata = [''encoding'' \<mapsto> ''json/plain'', ''messageType'' \<mapsto> ''Payload''],
      Data = ''eyJpZCI6MTIzfQ=='', KMSKeyID = [], EncryptedDataKey = [], Algorithm = []\<rparr>"

definition payload_other_encoding :: PayloadData where
  "payload_other_encoding =
     \<lparr>Metadata = [''encoding'' \<mapsto> ''binary/protobuf''],
      Data = ''CAE='', KMSKeyID = [], EncryptedDataKey = [], Algorithm = []\<rparr>"

definition payload_missing_key :: PayloadData where
  "payload_missing_key =
     \<lparr>Metadata = [''encoding'' \<mapsto> ''binary/encrypted''],
      Data = ''AAAA'', KMSKeyID = ''arn:aws:kms:key/1'', EncryptedDataKey = [],
      Algorithm = ''AES-256-GCM''\<rparr>"

definition payload_bad_key :: PayloadData where
  "payload_bad_key =
     \<lparr>Metadata = [''encoding'' \<mapsto> ''binary/encrypted''],
      Data = ''AAAA'', KMSKeyID = ''arn:aws:kms:key/1'', EncryptedDataKey = ''!'',
      Algorithm = ''AES-256-GCM''\<rparr>"

definition post_request :: "PayloadData list \<Rightarrow> http_Request" where
  "post_request ps = \<lparr>Method = ''POST'', Body = Some \<lparr>CodecRequest.Payloads = ps\<rparr>\<rparr>"

definition env_empty_kms :: env where
  "env_empty_kms =
     \<lparr>time_Now = (\<lambda>n. int n),
      kms_GenerateDataKey = (\<lambda>n KeyId ts. Inr (replicate 32 0x11, [])),
      kms_Decrypt = (\<lambda>n blob KeyId. Inr (replicate 32 0x11)),
      rand_Reader = (\<lambda>n. replicate 12 0),
      config_LoadDefaultConfig = True\<rparr>"

definition world_empty_ids :: world where
  "world_empty_ids =
     \<lparr>client = [GenerateDataKeyCall [] 0],
      keyID = [],
      currentDataKey = Some \<lparr>PlaintextKey = 0, EncryptedKey = [],
                              GeneratedAt = 1, ExpiresAt = 3600000000001\<rparr>,
      decryptionCache = [],
      cacheTTL = 86400000000000,
      keyRotationInterval = 3600000000000,
      heap = [replicate 32 0x11],
      ticks = 2,
      encrypts = 0\<rparr>"

definition payload_old_key :: PayloadData where
  "payload_old_key =
     \<lparr>Metadata = [''encoding'' \<mapsto> ''binary/encrypted''],
      Data = ''AAAA'', KMSKeyID = ''arn:aws:kms:key/1'', EncryptedDataKey = ''QUJD'',
      Algorithm = ''AES-256-GCM''\<rparr>"

text \<open>
  A KMS that answers every \<open>Decrypt\<close> request but its second request, under a clock that
  jumps by more than the cache TTL after its third reading; the manager that
  \<open>NewKMSManager\<close> builds against it after it has resolved the blob \<open>QUJD\<close> once, and
  the same manager after a second call for that blob has met the unavailable KMS.
\<close>

definition env_outage_kms :: env where
  "env_outage_kms =
     \<lparr>time_Now = (\<lambda>n. if n < 3 then int n else int n * 100000000000000),
      kms_GenerateDataKey = (\<lambda>n KeyId ts. Inr (replicate 32 (of_nat n), [of_nat n, 0x42, 0x43])),
      kms_Decrypt = (\<lambda>n blob KeyId.
         if n = 2 then Inl (KmsError ''unavailable'') else Inr (replicate 32 (of_nat n))),
      rand_Reader = (\<lambda>n. replicate 12 0),
      config_LoadDefaultConfig = True\<rparr>"

definition world_cached_key :: world where
  "world_cached_key =
     \<lparr>client = [GenerateDataKeyCall ''arn:aws:kms:key/1'' 0,
                DecryptCall [0x41, 0x42, 0x43] ''arn:aws:kms:key/1''],
      keyID = ''arn:aws:kms:key/1'',
      currentDataKey = Some \<lparr>PlaintextKey = 0, EncryptedKey = EncodeToString [0, 0x42, 0x43],
                              GeneratedAt = 1, ExpiresAt = 3600000000001\<rparr>,
      decryptionCache = [(''QUJD'', \<lparr>Key = 1, ExpiresAt = 86400000000002\<rparr>)],
      cacheTTL = 86400000000000,
      keyRotationInterval = 3600000000000,
      heap = [replicate 32 0, replicate 32 1],
      ticks = 3,
      encrypts = 0\<rparr>"

definition world_after_outage :: world where
  "world_after_outage =
     world_cached_key\<lparr>client := client world_cached_key @
       [DecryptCall [0x41, 0x42, 0x43] ''arn:aws:kms:key/1'']\<rparr>"


section \<open>Properties of the library functions\<close>

subsection \<open>Base64 decoding inverts encoding\<close>

lemma length_encodeStd: "length encodeStd = 64"
  by (simp add: encodeStd_def)

lemma distinct_encodeStd: "distinct encodeStd"
  by (simp add: encodeStd_def)

lemma index_of_nth: "distinct xs \<Longrightarrow> i < length xs \<Longrightarrow> index_of (xs ! i) xs = Some i"
proof (induction xs arbitrary: i)
  case Nil
  then show ?case by simp
next
  case (Cons x xs)
  show ?case
  proof (cases i)
    case 0
    then show ?thesis by simp
  next
    case (Suc k)
    with Cons.prems have "xs ! k \<noteq> x" "k < length xs" "distinct xs"
      by auto
    with Cons.IH [of k] Suc show ?thesis by simp
  qed
qed

lemma sextet_bound: "unat ((v :: 32 word) AND 0x3F) < 64"
proof -
  have "v AND 0x3F = take_bit 6 v"
    by (simp add: take_bit_eq_mask mask_eq_exp_minus_1)
  then show ?thesis
    using take_bit_nat_less_exp [of 6 "unat v"] by (simp add: unsigned_take_bit_eq) 
qed

lemma decodeMap_enc_char: "decodeMap (enc_char v) = Some (v AND 0x3F)"
  using index_of_nth [OF distinct_encodeStd, of "unat (v AND 0x3F)"] sextet_bound [of v]
  by (simp add: decodeMap_def enc_char_def length_encodeStd)

lemma decodeMap_padChar: "decodeMap padChar = None"
  by (simp add: decodeMap_def padChar_def encodeStd_def)

lemma not_newline_padChar: "\<not> is_newline padChar"
  by (simp add: is_newline_def padChar_def)


lemma bit_sextets:
  fixes w :: "32 word"
  shows "bit (push_bit 18 (drop_bit 18 w AND 0x3F) OR push_bit 12 (drop_bit 12 w AND 0x3F) OR
          push_bit 6 (drop_bit 6 w AND 0x3F) OR (w AND 0x3F)) n \<longleftrightarrow> n < 24 \<and> bit w n"
proof -
  have m: "(0x3F :: 32 word) = mask 6" by (simp add: mask_eq_exp_minus_1)
  consider "n < 6" | "6 \<le> n" "n < 12" | "12 \<le> n" "n < 18" | "18 \<le> n" "n < 24" | "24 \<le> n"
    by linarith
  then show ?thesis
  proof cases
    case 1
    then show ?thesis unfolding m by (auto simp add: bit_simps)
  next
    case 2
    then show ?thesis unfolding m by (auto simp add: bit_simps)
  next
    case 3
    then show ?thesis unfolding m by (auto simp add: bit_simps)
  next
    case 4
    then show ?thesis unfolding m by (auto simp add: bit_simps)
  next
    case 5
    then show ?thesis unfolding m by (auto simp add: bit_simps)
  qed
qed

lemma bit_val3:
  fixes b0 b1 b2 :: byte
  shows "bit (push_bit 16 (ucast b0) OR push_bit 8 (ucast b1) OR ucast b2 :: 32 word) n
    \<longleftrightarrow> (if n < 8 then bit b2 n else if n < 16 then bit b1 (n - 8) else n < 24 \<and> bit b0 (n - 16))"
proof -
  consider "n < 8" | "8 \<le> n" "n < 16" | "16 \<le> n" "n < 24" | "24 \<le> n"
    by linarith
  then show ?thesis
  proof cases
    case 1
    then show ?thesis by (auto simp add: bit_simps)
  next
    case 2
    then show ?thesis by (auto simp add: bit_simps dest: bit_imp_le_length)
  next
    case 3
    then show ?thesis by (auto simp add: bit_simps dest: bit_imp_le_length)
  next
    case 4
    then show ?thesis by (auto simp add: bit_simps dest: bit_imp_le_length)
  qed
qed


lemma assemble4_gen:
  fixes w :: "32 word"
  assumes "\<And>n. bit w n \<Longrightarrow> n < 24"
  shows "assemble [drop_bit 18 w AND 0x3F, drop_bit 12 w AND 0x3F, drop_bit 6 w AND 0x3F, w AND 0x3F]
         = [ucast (drop_bit 16 w), ucast (drop_bit 8 w), ucast w]"
proof -
  have e: "join_sextets (drop_bit 18 w AND 0x3F) (drop_bit 12 w AND 0x3F)
          (drop_bit 6 w AND 0x3F) (w AND 0x3F) = w"
    unfolding join_sextets_def by (rule bit_word_eqI) (use assms bit_sextets in blast)
  then show ?thesis
    by (simp add: assemble_def)
qed

lemma assemble3_gen:
  fixes w :: "32 word"
  assumes "\<And>n. bit w n \<Longrightarrow> 6 \<le> n \<and> n < 24"
  shows "assemble [drop_bit 18 w AND 0x3F, drop_bit 12 w AND 0x3F, drop_bit 6 w AND 0x3F]
         = [ucast (drop_bit 16 w), ucast (drop_bit 8 w)]"
proof -
  have z: "w AND 0x3F = 0"
  proof (rule bit_word_eqI)
    fix n
    have m: "(0x3F :: 32 word) = mask 6" by (simp add: mask_eq_exp_minus_1)
    show "bit (w AND 0x3F) n = bit (0 :: 32 word) n"
      unfolding m using assms [of n] by (auto simp add: bit_simps)
  qed
  have e: "join_sextets (drop_bit 18 w AND 0x3F) (drop_bit 12 w AND 0x3F)
          (drop_bit 6 w AND 0x3F) (w AND 0x3F) = w"
    unfolding join_sextets_def by (rule bit_word_eqI) (use assms bit_sextets in blast)
  from e z show ?thesis
    by (simp add: assemble_def)
qed

lemma assemble2_gen:
  fixes w :: "32 word"
  assumes "\<And>n. bit w n \<Longrightarrow> 12 \<le> n \<and> n < 24"
  shows "assemble [drop_bit 18 w AND 0x3F, drop_bit 12 w AND 0x3F] = [ucast (drop_bit 16 w)]"
proof -
  have m: "(0x3F :: 32 word) = mask 6" by (simp add: mask_eq_exp_minus_1)
  have z: "w AND 0x3F = 0"
  proof (rule bit_word_eqI)
    fix n
    show "bit (w AND 0x3F) n = bit (0 :: 32 word) n"
      unfolding m using assms [of n] by (auto simp add: bit_simps)
  qed
  have z': "drop_bit 6 w AND 0x3F = 0"
  proof (rule bit_word_eqI)
    fix n
    show "bit (drop_bit 6 w AND 0x3F) n = bit (0 :: 32 word) n"
      unfolding m using assms [of "6 + n"] by (auto simp add: bit_simps)
  qed
  have e: "join_sextets (drop_bit 18 w AND 0x3F) (drop_bit 12 w AND 0x3F)
          (drop_bit 6 w AND 0x3F) (w AND 0x3F) = w"
    unfolding join_sextets_def by (rule bit_word_eqI) (use assms bit_sextets in blast)
  from e z z' show ?thesis
    by (simp add: assemble_def)
qed

lemma bit_val2:
  fixes b0 b1 :: byte
  shows "bit (push_bit 16 (ucast b0) OR push_bit 8 (ucast b1) :: 32 word) n
    \<longleftrightarrow> (if n < 8 then False else if n < 16 then bit b1 (n - 8) else n < 24 \<and> bit b0 (n - 16))"
  using bit_val3 [of b0 b1 0 n] by simp

lemma bit_val1:
  fixes b0 :: byte
  shows "bit (push_bit 16 (ucast b0) :: 32 word) n \<longleftrightarrow> 16 \<le> n \<and> n < 24 \<and> bit b0 (n - 16)"
  using bit_val3 [of b0 0 0 n] by simp

lemma ucast_drop_16:
  fixes b0 b1 b2 :: byte
  shows "ucast (drop_bit 16 (push_bit 16 (ucast b0) OR push_bit 8 (ucast b1) OR ucast b2 :: 32 word)) = b0"
  by (rule bit_word_eqI) (auto simp add: bit_simps dest: bit_imp_le_length)

lemma ucast_drop_8:
  fixes b0 b1 b2 :: byte
  shows "ucast (drop_bit 8 (push_bit 16 (ucast b0) OR push_bit 8 (ucast b1) OR ucast b2 :: 32 word)) = b1"
  by (rule bit_word_eqI) (auto simp add: bit_simps dest: bit_imp_le_length)

lemma ucast_drop_0:
  fixes b0 b1 b2 :: byte
  shows "ucast (push_bit 16 (ucast b0) OR push_bit 8 (ucast b1) OR ucast b2 :: 32 word) = b2"
  by (rule bit_word_eqI) (auto simp add: bit_simps dest: bit_imp_le_length)

lemma quantum_roundtrip3:
  fixes b0 b1 b2 :: byte
  defines "val \<equiv> push_bit 16 (ucast b0) OR push_bit 8 (ucast b1) OR ucast b2 :: 32 word"
  shows "assemble [drop_bit 18 val AND 0x3F, drop_bit 12 val AND 0x3F,
                   drop_bit 6 val AND 0x3F, val AND 0x3F] = [b0, b1, b2]"
proof -
  have "bit val n \<Longrightarrow> n < 24" for n
    unfolding val_def bit_val3 by (simp split: if_splits)
  then have "assemble [drop_bit 18 val AND 0x3F, drop_bit 12 val AND 0x3F,
                   drop_bit 6 val AND 0x3F, val AND 0x3F]
      = [ucast (drop_bit 16 val), ucast (drop_bit 8 val), ucast val]"
    by (rule assemble4_gen)
  also have "\<dots> = [b0, b1, b2]"
    unfolding val_def by (simp only: ucast_drop_16 ucast_drop_8 ucast_drop_0)
  finally show ?thesis .
qed

lemma quantum_roundtrip2:
  fixes b0 b1 :: byte
  defines "val \<equiv> push_bit 16 (ucast b0) OR push_bit 8 (ucast b1) :: 32 word"
  shows "assemble [drop_bit 18 val AND 0x3F, drop_bit 12 val AND 0x3F,
                   drop_bit 6 val AND 0x3F] = [b0, b1]"
proof -
  have v: "val = push_bit 16 (ucast b0) OR push_bit 8 (ucast b1) OR ucast (0 :: byte)"
    by (simp add: val_def)
  have "bit val n \<Longrightarrow> 6 \<le> n \<and> n < 24" for n
    unfolding val_def bit_val2 by (simp split: if_splits)
  then have "assemble [drop_bit 18 val AND 0x3F, drop_bit 12 val AND 0x3F,
                   drop_bit 6 val AND 0x3F]
      = [ucast (drop_bit 16 val), ucast (drop_bit 8 val)]"
    by (rule assemble3_gen)
  also have "\<dots> = [b0, b1]"
    unfolding v by (simp only: ucast_drop_16 ucast_drop_8)
  finally show ?thesis .
qed

lemma quantum_roundtrip1:
  fixes b0 :: byte
  defines "val \<equiv> push_bit 16 (ucast b0) :: 32 word"
  shows "assemble [drop_bit 18 val AND 0x3F, drop_bit 12 val AND 0x3F] = [b0]"
proof -
  have v: "val = push_bit 16 (ucast b0) OR push_bit 8 (ucast (0 :: byte)) OR ucast (0 :: byte)"
    by (simp add: val_def)
  have "bit val n \<Longrightarrow> 12 \<le> n \<and> n < 24" for n
    unfolding val_def bit_val1 by simp
  then have "assemble [drop_bit 18 val AND 0x3F, drop_bit 12 val AND 0x3F]
      = [ucast (drop_bit 16 val)]"
    by (rule assemble2_gen)
  also have "\<dots> = [b0]"
    unfolding v by (simp only: ucast_drop_16)
  finally show ?thesis .
qed

lemma decode_quantum4:
  assumes "decodeMap c0 = Some s0" "decodeMap c1 = Some s1" "decodeMap c2 = Some s2"
    "decodeMap c3 = Some s3"
  shows "b64_Decode [] (c0 # c1 # c2 # c3 # rest) =
     (case b64_Decode [] rest of Inl e \<Rightarrow> Inl e | Inr out \<Rightarrow> Inr (assemble [s0, s1, s2, s3] @ out))"
  using assms by (simp split: sum.split)

lemma decode_pad3:
  assumes "decodeMap c0 = Some s0" "decodeMap c1 = Some s1" "decodeMap c2 = Some s2"
  shows "b64_Decode [] [c0, c1, c2, padChar] = Inr (assemble [s0, s1, s2])"
  using assms by (simp add: decodeMap_padChar not_newline_padChar finish_padding_def)

lemma decode_pad2:
  assumes "decodeMap c0 = Some s0" "decodeMap c1 = Some s1"
  shows "b64_Decode [] [c0, c1, padChar, padChar] = Inr (assemble [s0, s1])"
  using assms by (simp add: decodeMap_padChar not_newline_padChar finish_padding_def)

lemma b64_Decode_Encode: "b64_Decode [] (b64_Encode src) = Inr src"
proof (induction src rule: b64_Encode.induct)
  case (1 b0 b1 b2 rest)
  define val :: "32 word" where "val = push_bit 16 (ucast b0) OR push_bit 8 (ucast b1) OR ucast b2"
  have "b64_Encode (b0 # b1 # b2 # rest) =
      enc_char (drop_bit 18 val) # enc_char (drop_bit 12 val) #
         enc_char (drop_bit 6 val) # enc_char val # b64_Encode rest"
    by (simp only: b64_Encode.simps Let_def val_def)
  then have "b64_Decode [] (b64_Encode (b0 # b1 # b2 # rest)) =
      Inr (assemble [drop_bit 18 val AND 0x3F, drop_bit 12 val AND 0x3F,
                   drop_bit 6 val AND 0x3F, val AND 0x3F] @ rest)"
    by (simp only: decode_quantum4 [OF decodeMap_enc_char decodeMap_enc_char
          decodeMap_enc_char decodeMap_enc_char] "1.IH" sum.case)
  then show ?case
    unfolding val_def by (simp only: quantum_roundtrip3 append_Cons append_Nil)
next
  case (2 b0 b1)
  define val :: "32 word" where "val = push_bit 16 (ucast b0) OR push_bit 8 (ucast b1)"
  have "b64_Encode [b0, b1] =
      [enc_char (drop_bit 18 val), enc_char (drop_bit 12 val), enc_char (drop_bit 6 val), padChar]"
    by (simp only: b64_Encode.simps Let_def val_def)
  then have "b64_Decode [] (b64_Encode [b0, b1]) =
      Inr (assemble [drop_bit 18 val AND 0x3F, drop_bit 12 val AND 0x3F, drop_bit 6 val AND 0x3F])"
    by (simp only: decode_pad3 [OF decodeMap_enc_char decodeMap_enc_char decodeMap_enc_char])
  then show ?case
    unfolding val_def by (simp only: quantum_roundtrip2)
next
  case (3 b0)
  define val :: "32 word" where "val = push_bit 16 (ucast b0)"
  have "b64_Encode [b0] =
      [enc_char (drop_bit 18 val), enc_char (drop_bit 12 val), padChar, padChar]"
    by (simp only: b64_Encode.simps Let_def val_def)
  then have "b64_Decode [] (b64_Encode [b0]) =
      Inr (assemble [drop_bit 18 val AND 0x3F, drop_bit 12 val AND 0x3F])"
    by (simp only: decode_pad2 [OF decodeMap_enc_char decodeMap_enc_char])
  then show ?case
    unfolding val_def by (simp only: quantum_roundtrip1)
next
  case 4
  show ?case by simp
qed

lemma DecodeString_EncodeToString: "DecodeString (EncodeToString src) = Inr src"
  by (simp add: DecodeString_def EncodeToString_def b64_Decode_Encode)

lemma EncodeToString_inj: "EncodeToString a = EncodeToString b \<Longrightarrow> a = b"
  by (metis DecodeString_EncodeToString sum.inject(2))

subsection \<open>The block cipher on the example vector of FIPS 197, C.3\<close>

lemma aes256_example_vector:
  "bytes_of_block (aes_block
     [0x00, 0x01, 0x02, 0x03, 0x04, 0x05, 0x06, 0x07, 0x08, 0x09, 0x0a, 0x0b, 0x0c, 0x0d, 0x0e, 0x0f,
      0x10, 0x11, 0x12, 0x13, 0x14, 0x15, 0x16, 0x17, 0x18, 0x19, 0x1a, 0x1b, 0x1c, 0x1d, 0x1e, 0x1f]
     0x00112233445566778899aabbccddeeff)
   = [0x8e, 0xa2, 0xb7, 0xca, 0x51, 0x67, 0x45, 0xbf, 0xea, 0xfc, 0x49, 0x90, 0x4b, 0x49, 0x60, 0x89]"
  by code_simp

subsection \<open>Opening what was sealed\<close>

lemma length_bytes_of_block: "length (bytes_of_block w) = 16"
  by (simp add: bytes_of_block_def)

lemma length_xor_bytes: "length (xor_bytes a b) = min (length a) (length b)"
  by (simp add: xor_bytes_def)

lemma xor_bytes_cancel: "length a \<le> length k \<Longrightarrow> xor_bytes (xor_bytes a k) k = a"
proof (induction a arbitrary: k)
  case Nil
  then show ?case by (simp add: xor_bytes_def)
next
  case (Cons x a)
  then obtain y k' where k: "k = y # k'" by (cases k) auto
  with Cons.prems have "length a \<le> length k'" by simp
  then have "xor_bytes (xor_bytes a k') k' = a" by (rule Cons.IH)
  then show ?case by (simp add: k xor_bytes_def xor.assoc)
qed

lemma counterCrypt_n_Nil: "counterCrypt_n n E cb [] = []"
  by (induction n arbitrary: cb) (simp_all add: xor_bytes_def)

lemma length_counterCrypt_n: "length (counterCrypt_n n E cb xs) = min (16 * n) (length xs)"
  by (induction n arbitrary: cb xs) (auto simp add: length_xor_bytes length_bytes_of_block)

lemma counterCrypt_n_twice: "counterCrypt_n n E cb (counterCrypt_n n E cb xs) = take (16 * n) xs"
proof (induction n arbitrary: cb xs)
  case 0
  show ?case by simp
next
  case (Suc n)
  let ?ks = "bytes_of_block (E cb)"
  let ?A = "xor_bytes (take 16 xs) ?ks"
  let ?B = "counterCrypt_n n E (gcmInc32 cb) (drop 16 xs)"
  have undo: "xor_bytes ?A ?ks = take 16 xs"
    by (rule xor_bytes_cancel) (simp add: length_bytes_of_block)
  show ?case
  proof (cases "16 \<le> length xs")
    case True
    then have lenA: "length ?A = 16"
      by (simp add: length_xor_bytes length_bytes_of_block)
    then have "take 16 (?A @ ?B) = ?A" and "drop 16 (?A @ ?B) = ?B"
      by simp_all
    then have "counterCrypt_n (Suc n) E cb (counterCrypt_n (Suc n) E cb xs) =
        take 16 xs @ take (16 * n) (drop 16 xs)"
      by (simp add: undo Suc.IH)
    also have "\<dots> = take (16 * Suc n) xs"
      by (simp add: take_add [symmetric])
    finally show ?thesis .
  next
    case False
    then have short: "take 16 xs = xs" "drop 16 xs = []"
      by simp_all
    then have B: "?B = []"
      by (simp add: counterCrypt_n_Nil)
    have "length ?A \<le> 16"
      by (simp add: length_xor_bytes length_bytes_of_block)
    then have "take 16 ?A = ?A" and "drop 16 ?A = []"
      by simp_all
    then have "counterCrypt_n (Suc n) E cb (counterCrypt_n (Suc n) E cb xs) = xs"
      using undo by (simp add: B short counterCrypt_n_Nil)
    with False show ?thesis by simp
  qed
qed

lemma length_counterCrypt: "length (counterCrypt E cb xs) = length xs"
  by (simp add: counterCrypt_def length_counterCrypt_n)

lemma counterCrypt_twice: "counterCrypt E cb (counterCrypt E cb xs) = xs"
  by (simp add: counterCrypt_def length_counterCrypt_n counterCrypt_n_twice)

lemma length_gcm_auth: "length (gcm_auth E ct aad tagMask) = 16"
  by (simp add: gcm_auth_def Let_def length_bytes_of_block)

lemma gcm_Open_Seal:
  assumes "gcm_Seal g nonce nonce plaintext aad = Inr sealed" and "tagSize g = 16"
  shows "gcm_Open g [] (take (length nonce) sealed) (drop (length nonce) sealed) aad = Inr plaintext"
proof -
  let ?counter = "deriveCounter nonce"
  let ?out = "counterCrypt (cipher g) (gcmInc32 ?counter) plaintext"
  let ?tag = "gcm_auth (cipher g) ?out aad (cipher g ?counter)"
  from assms(1) have n: "length nonce = nonceSize g"
    and small: "length plaintext \<le> (2 ^ 32 - 2) * gcmBlockSize"
    and sealed: "sealed = nonce @ ?out @ ?tag"
    by (auto simp add: gcm_Seal_def Let_def split: if_splits)
  have parts: "take (length nonce) sealed = nonce" "drop (length nonce) sealed = ?out @ ?tag"
    by (simp_all add: sealed)
  have "gcm_Open g [] nonce (?out @ ?tag) aad =
      Inr (counterCrypt (cipher g) (gcmInc32 ?counter) ?out)"
    using n small
    by (simp add: gcm_Open_def assms(2) Let_def length_counterCrypt length_gcm_auth)
  then show ?thesis
    by (simp only: parts counterCrypt_twice)
qed


section \<open>The envelope cipher: round trip and key length\<close>

lemma EncryptWithDataKey_Inr:
  assumes "EncryptWithDataKey p k rnd = Inr c"
  obtains sealed where "length k = 32" and "12 \<le> length rnd"
    and "gcm_Seal \<lparr>cipher = aes_block k, nonceSize = 12, tagSize = 16\<rparr>
           (take 12 rnd) (take 12 rnd) p [] = Inr sealed"
    and "c = EncodeToString sealed"
  using assms
  by (auto simp add: EncryptWithDataKey_def aes_NewCipher_def cipher_NewGCM_def io_ReadFull_def
      gcmStandardNonceSize_def gcmTagSize_def split: if_splits sum.splits)

lemma EncryptWithDataKey_succeeds:
  assumes "length k = 32" and "12 \<le> length rnd" and "length p \<le> (2 ^ 32 - 2) * 16"
  shows "\<exists>c. EncryptWithDataKey p k rnd = Inr c"
  using assms
  by (simp add: EncryptWithDataKey_def aes_NewCipher_def cipher_NewGCM_def io_ReadFull_def
      gcmStandardNonceSize_def gcm_Seal_def gcmBlockSize_def Let_def)

lemma DecryptWithDataKey_EncryptWithDataKey:
  assumes enc: "EncryptWithDataKey p k rnd = Inr c"
  shows "DecryptWithDataKey c k = Inr p"
proof -
  let ?g = "\<lparr>cipher = aes_block k, nonceSize = 12, tagSize = 16\<rparr>"
  from enc obtain sealed where k: "length k = 32" and rd: "12 \<le> length rnd"
    and seal: "gcm_Seal ?g (take 12 rnd) (take 12 rnd) p [] = Inr sealed"
    and c: "c = EncodeToString sealed"
    by (rule EncryptWithDataKey_Inr)
  from rd have ln: "length (take 12 rnd) = 12" by simp
  have "gcm_Open ?g [] (take 12 sealed) (drop 12 sealed) [] = Inr p"
    using gcm_Open_Seal [OF seal] by (simp only: ln) simp
  moreover from seal rd have "12 \<le> length sealed"
    by (auto simp add: gcm_Seal_def Let_def split: if_splits)
  ultimately show ?thesis
    using k
    by (simp add: DecryptWithDataKey_def c DecodeString_EncodeToString aes_NewCipher_def
        cipher_NewGCM_def gcmStandardNonceSize_def gcmTagSize_def)
qed

text \<open>
  Claim C1. For every 32-byte key \<open>k\<close> and every byte sequence \<open>p\<close>, decrypting under \<open>k\<close>
  what \<open>EncryptWithDataKey\<close> returned for \<open>p\<close> under \<open>k\<close> succeeds and returns \<open>p\<close>,
  whatever nonce the source of randomness delivered. The encryption does return a
  ciphertext when the source of randomness delivers the 12 bytes of the nonce and \<open>p\<close> is
  within the length that \<open>Seal\<close> accepts.
\<close>

theorem EncryptWithDataKey_roundtrip:
  "length k = 32 \<Longrightarrow>
     (\<forall>c. EncryptWithDataKey p k rnd = Inr c \<longrightarrow> DecryptWithDataKey c k = Inr p) \<and>
     (12 \<le> length rnd \<and> length p \<le> (2 ^ 32 - 2) * 16 \<longrightarrow>
        (\<exists>c. EncryptWithDataKey p k rnd = Inr c))"
  using DecryptWithDataKey_EncryptWithDataKey [of p k rnd]
    EncryptWithDataKey_succeeds [of k rnd p]
  by blast

theorem EncryptWithDataKey_roundtrip_witness:
  "length (replicate 32 (1 :: byte)) = 32 \<and>
   (\<exists>c. EncryptWithDataKey [0x7b, 0x7d] (replicate 32 1) (replicate 12 7) = Inr c \<and>
        DecryptWithDataKey c (replicate 32 1) = Inr [0x7b, 0x7d])"
  using EncryptWithDataKey_roundtrip [of "replicate 32 1" "[0x7b, 0x7d]" "replicate 12 7"]
  by auto

text \<open>
  Claim C8. \<open>EncryptWithDataKey\<close> and \<open>DecryptWithDataKey\<close> fail with \<open>InvalidKeyLength\<close>
  if and only if the key is not exactly 32 bytes long: every other key length gives this
  error, and for a 32-byte key no later step of either function gives it.
\<close>

theorem InvalidKeyLength_iff:
  "(EncryptWithDataKey p k rnd = Inl InvalidKeyLength \<longleftrightarrow> length k \<noteq> 32) \<and>
   (DecryptWithDataKey c k = Inl InvalidKeyLength \<longleftrightarrow> length k \<noteq> 32)"
proof
  show "EncryptWithDataKey p k rnd = Inl InvalidKeyLength \<longleftrightarrow> length k \<noteq> 32"
    by (simp add: EncryptWithDataKey_def aes_NewCipher_def cipher_NewGCM_def io_ReadFull_def
        gcm_Seal_def Let_def split: sum.splits)
  show "DecryptWithDataKey c k = Inl InvalidKeyLength \<longleftrightarrow> length k \<noteq> 32"
    by (simp add: DecryptWithDataKey_def aes_NewCipher_def cipher_NewGCM_def
        gcm_Open_def Let_def split: sum.splits)
qed


section \<open>The KMS manager: rotation\<close>

lemma rotateDataKeyLocked_error:
  assumes "kms_GenerateDataKey e (length (client w)) (keyID w) (time_Now e (ticks w) div 1000000000) = Inl err"
  shows "rotateDataKeyLocked e w =
    (Some (KeyGenerationFailed err),
     w\<lparr>client := client w @ [GenerateDataKeyCall (keyID w) (time_Now e (ticks w) div 1000000000)],
       ticks := Suc (ticks w)\<rparr>)"
  using assms
  by (simp add: rotateDataKeyLocked_def time_now_def client_GenerateDataKey_def Let_def)

lemma rotateDataKeyLocked_success:
  assumes "kms_GenerateDataKey e (length (client w)) (keyID w) (time_Now e (ticks w) div 1000000000)
             = Inr (Plaintext, CiphertextBlob)"
  shows "rotateDataKeyLocked e w = (None, install_key e w Plaintext CiphertextBlob)"
  using assms
  by (simp add: rotateDataKeyLocked_def time_now_def client_GenerateDataKey_def Let_def
      alloc_def install_key_def split: option.splits)

lemma rotateDataKeyLocked_cases:
  "rotateDataKeyLocked e w =
     (case kms_GenerateDataKey e (length (client w)) (keyID w) (time_Now e (ticks w) div 1000000000) of
        Inl err \<Rightarrow> (Some (KeyGenerationFailed err),
                     w\<lparr>client := client w @ [GenerateDataKeyCall (keyID w) (time_Now e (ticks w) div 1000000000)],
                       ticks := Suc (ticks w)\<rparr>)
      | Inr (Plaintext, CiphertextBlob) \<Rightarrow> (None, install_key e w Plaintext CiphertextBlob))"
  by (simp add: rotateDataKeyLocked_error rotateDataKeyLocked_success split: sum.splits prod.splits)

lemma load_zero_key_same:
  "a < length h \<Longrightarrow> load (zero_key h a) a = replicate (length (load h a)) 0"
  by (simp add: load_def zero_key_def map_replicate_const)

lemma load_zero_key_other:
  "a \<noteq> b \<Longrightarrow> load (zero_key h a) b = load h b"
  by (simp add: load_def zero_key_def)

lemma load_append_old: "a < length h \<Longrightarrow> load (h @ [b]) a = load h a"
  by (simp add: load_def nth_append)

lemma load_append_new: "load (h @ [b]) (length h) = b"
  by (simp add: load_def)

lemma GetCurrentDataKey_valid:
  assumes "currentDataKey w = Some ck"
    and "\<not> CurrentDataKey.ExpiresAt ck < time_Now e (ticks w)"
  shows "GetCurrentDataKey e w = (Inr (Some ck), w\<lparr>ticks := Suc (ticks w)\<rparr>)"
  using assms by (simp add: GetCurrentDataKey_def rotation_needed_def time_now_def)

lemma NewKMSManager_fresh:
  "NewKMSManager env_fresh_kms ''arn:aws:kms:key/1'' 86400000000000 3600000000000 = Inr world_started"
  by (simp add: NewKMSManager_def rotateDataKey_def rotateDataKeyLocked_cases install_key_def
      env_fresh_kms_def world_started_def)

text \<open>
  Claim C5. In a state with a current data key, when a call of \<open>GetCurrentDataKey\<close> finds
  the key expired at both of its checks and the KMS answers the \<open>GenerateDataKey\<close> request
  with an error, the call returns \<open>KeyGenerationFailed\<close> with that error and leaves the
  current data key as it was: the same plaintext buffer with the same bytes, the same
  encrypted blob, generation time and expiry. The expired key stays installed.
\<close>

theorem GetCurrentDataKey_generation_failure:
  assumes "currentDataKey w = Some ck"
    and "CurrentDataKey.ExpiresAt ck < time_Now e (ticks w)"
    and "CurrentDataKey.ExpiresAt ck < time_Now e (ticks w + 1)"
    and "kms_GenerateDataKey e (length (client w)) (keyID w)
           (time_Now e (ticks w + 2) div 1000000000) = Inl err"
  shows "\<exists>w'. GetCurrentDataKey e w = (Inl (KeyGenerationFailed err), w') \<and>
           currentDataKey w' = Some ck \<and> heap w' = heap w \<and>
           load (heap w') (PlaintextKey ck) = load (heap w) (PlaintextKey ck)"
  using assms
  by (simp add: GetCurrentDataKey_def rotation_needed_def time_now_def Let_def
      rotateDataKeyLocked_cases)

theorem GetCurrentDataKey_generation_failure_witness:
  "currentDataKey world_expired_key =
     Some \<lparr>PlaintextKey = 0, EncryptedKey = ''QUJD'', GeneratedAt = 0, ExpiresAt = 3600000000000\<rparr> \<and>
   (\<exists>w'. GetCurrentDataKey env_kms_down world_expired_key =
           (Inl (KeyGenerationFailed (KmsError ''unavailable'')), w') \<and>
         currentDataKey w' = currentDataKey world_expired_key \<and>
         load (heap w') 0 = replicate 32 0x5A)"
proof -
  let ?ck = "\<lparr>PlaintextKey = 0, EncryptedKey = ''QUJD'', GeneratedAt = 0, ExpiresAt = 3600000000000\<rparr>"
  have key: "currentDataKey world_expired_key = Some ?ck"
    by (simp add: world_expired_key_def)
  have t1: "CurrentDataKey.ExpiresAt ?ck < time_Now env_kms_down (ticks world_expired_key)"
    and t2: "CurrentDataKey.ExpiresAt ?ck < time_Now env_kms_down (ticks world_expired_key + 1)"
    by (simp_all add: world_expired_key_def env_kms_down_def)
  have down: "kms_GenerateDataKey env_kms_down (length (client world_expired_key))
      (keyID world_expired_key)
      (time_Now env_kms_down (ticks world_expired_key + 2) div 1000000000) = Inl (KmsError ''unavailable'')"
    by (simp add: env_kms_down_def)
  have "load (heap world_expired_key) 0 = replicate 32 0x5A"
    by (simp add: world_expired_key_def load_def)
  with GetCurrentDataKey_generation_failure [OF key t1 t2 down] key show ?thesis
    by auto
qed

text \<open>
  Claim C6, as stated, fails: the manager installs whatever blob the KMS returns and does
  not compare it with the blob of the key it replaces. Against a KMS that answers every
  \<open>GenerateDataKey\<close> request with the same blob, the manager built by \<open>NewKMSManager\<close>
  holds, after a successful rotation, a current key with the encrypted blob it had before.
\<close>

theorem rotateDataKey_same_blob_counterexample:
  "\<exists>w1 old w2 new w3.
     NewKMSManager env_constant_kms ''arn:aws:kms:key/1'' 86400000000000 3600000000000 = Inr w1 \<and>
     currentDataKey w1 = Some old \<and>
     rotateDataKey env_constant_kms w1 = (None, w2) \<and>
     GetCurrentDataKey env_constant_kms w2 = (Inr (Some new), w3) \<and>
     EncryptedKey new = EncryptedKey old"
  by (simp add: NewKMSManager_def rotateDataKey_def rotateDataKeyLocked_cases install_key_def
      env_constant_kms_def GetCurrentDataKey_def rotation_needed_def time_now_def Let_def)

text \<open>
  Claim C6, amended. In a state with a current data key, whose plaintext buffer is in the
  heap, after a successful \<open>rotateDataKey\<close> the current key has as encrypted blob the
  base64 encoding of the blob that the KMS returned to this request, so that it differs
  from the blob of the key before the rotation exactly when the KMS returned a different
  blob; its expiry is its
  generation time plus the configured rotation interval; its buffer holds the plaintext
  that the KMS returned; every byte of the plaintext buffer of the key before the
  rotation is zero; and \<open>GetCurrentDataKey\<close> returns the new key, without a request to
  the KMS, as long as it has not expired.
\<close>

theorem rotateDataKey_installs_returned_key:
  assumes "currentDataKey w = Some old"
    and "PlaintextKey old < length (heap w)"
    and "rotateDataKey e w = (None, w')"
  shows "\<exists>new Plaintext CiphertextBlob.
           kms_GenerateDataKey e (length (client w)) (keyID w)
             (time_Now e (ticks w) div 1000000000) = Inr (Plaintext, CiphertextBlob) \<and>
           currentDataKey w' = Some new \<and>
           EncryptedKey new = EncodeToString CiphertextBlob \<and>
           (\<forall>previous. EncryptedKey old = EncodeToString previous \<longrightarrow>
              (EncryptedKey new \<noteq> EncryptedKey old \<longleftrightarrow> CiphertextBlob \<noteq> previous)) \<and>
           CurrentDataKey.ExpiresAt new = GeneratedAt new + keyRotationInterval w \<and>
           load (heap w') (PlaintextKey new) = Plaintext \<and>
           load (heap w') (PlaintextKey old) =
             replicate (length (load (heap w) (PlaintextKey old))) 0 \<and>
           (\<not> CurrentDataKey.ExpiresAt new < time_Now e (ticks w') \<longrightarrow>
              fst (GetCurrentDataKey e w') = Inr (Some new) \<and>
              client (snd (GetCurrentDataKey e w')) = client w')"
proof -
  from assms(3) obtain Plaintext CiphertextBlob where
    kms: "kms_GenerateDataKey e (length (client w)) (keyID w)
             (time_Now e (ticks w) div 1000000000) = Inr (Plaintext, CiphertextBlob)"
    and w': "w' = install_key e w Plaintext CiphertextBlob"
    by (auto simp add: rotateDataKey_def rotateDataKeyLocked_cases split: sum.splits)
  define new where "new = \<lparr>PlaintextKey = length (heap w),
          EncryptedKey = EncodeToString CiphertextBlob,
          GeneratedAt = time_Now e (Suc (ticks w)),
          ExpiresAt = time_Now e (Suc (ticks w)) + keyRotationInterval w\<rparr>"
  have cur: "currentDataKey w' = Some new"
    by (simp add: w' install_key_def new_def)
  have hp: "heap w' = zero_key (heap w @ [Plaintext]) (PlaintextKey old)"
    by (simp add: w' install_key_def assms(1))
  from assms(2) have ne: "PlaintextKey old \<noteq> length (heap w)" by simp
  have l1: "load (heap w') (PlaintextKey new) = Plaintext"
    using ne by (simp add: hp new_def load_zero_key_other load_append_new)
  have l2: "load (heap w') (PlaintextKey old) = replicate (length (load (heap w) (PlaintextKey old))) 0"
    using assms(2) by (simp add: hp load_zero_key_same load_append_old)
  have inj: "EncryptedKey new \<noteq> EncryptedKey old \<longleftrightarrow> CiphertextBlob \<noteq> previous"
    if "EncryptedKey old = EncodeToString previous" for previous
    using that EncodeToString_inj [of CiphertextBlob previous] by (auto simp add: new_def)
  have get: "fst (GetCurrentDataKey e w') = Inr (Some new) \<and>
      client (snd (GetCurrentDataKey e w')) = client w'"
    if "\<not> CurrentDataKey.ExpiresAt new < time_Now e (ticks w')"
    using GetCurrentDataKey_valid [OF cur that] by simp
  have "EncryptedKey new = EncodeToString CiphertextBlob"
    and "CurrentDataKey.ExpiresAt new = GeneratedAt new + keyRotationInterval w"
    by (simp_all add: new_def)
  with kms cur l1 l2 inj get show ?thesis by blast
qed

theorem rotateDataKey_installs_returned_key_witness:
  "currentDataKey world_started =
     Some \<lparr>PlaintextKey = 0, EncryptedKey = EncodeToString [0, 0x42, 0x43],
           GeneratedAt = 1, ExpiresAt = 3600000000001\<rparr> \<and>
   (0 :: nat) < length (heap world_started) \<and>
   (\<exists>w' new. rotateDataKey env_fresh_kms world_started = (None, w') \<and>
      currentDataKey w' = Some new \<and>
      EncryptedKey new = EncodeToString [1, 0x42, 0x43] \<and>
      EncryptedKey new \<noteq> EncodeToString [0, 0x42, 0x43] \<and>
      CurrentDataKey.ExpiresAt new = GeneratedAt new + 3600000000000 \<and>
      load (heap w') 0 = replicate 32 0 \<and>
      fst (GetCurrentDataKey env_fresh_kms w') = Inr (Some new))"
proof -
  let ?old = "\<lparr>PlaintextKey = 0, EncryptedKey = EncodeToString [0, 0x42, 0x43],
           GeneratedAt = 1, ExpiresAt = 3600000000001\<rparr>"
  let ?w' = "install_key env_fresh_kms world_started (replicate 32 1) [1, 0x42, 0x43]"
  have key: "currentDataKey world_started = Some ?old"
    by (simp add: world_started_def)
  have valid: "PlaintextKey ?old < length (heap world_started)"
    by (simp add: world_started_def)
  have rot: "rotateDataKey env_fresh_kms world_started = (None, ?w')"
    unfolding rotateDataKey_def
    by (rule rotateDataKeyLocked_success) (simp add: env_fresh_kms_def world_started_def)
  have kms: "kms_GenerateDataKey env_fresh_kms (length (client world_started))
      (keyID world_started) (time_Now env_fresh_kms (ticks world_started) div 1000000000)
      = Inr (replicate 32 1, [1, 0x42, 0x43])"
    by (simp add: env_fresh_kms_def world_started_def)
  have live: "\<not> 3 + 3600000000000 < time_Now env_fresh_kms (ticks ?w')"
    by (simp add: env_fresh_kms_def install_key_def world_started_def)
  have old_len: "load (heap world_started) 0 = replicate 32 0"
    by (simp add: world_started_def load_def)
  have interval: "keyRotationInterval world_started = 3600000000000"
    and gen: "time_Now env_fresh_kms (Suc (ticks world_started)) = 3"
    by (simp_all add: world_started_def env_fresh_kms_def)
  from rotateDataKey_installs_returned_key [OF key valid rot]
  obtain new Plaintext CiphertextBlob where
    "kms_GenerateDataKey env_fresh_kms (length (client world_started))
      (keyID world_started) (time_Now env_fresh_kms (ticks world_started) div 1000000000)
      = Inr (Plaintext, CiphertextBlob)"
    and new: "currentDataKey ?w' = Some new"
    and enc: "EncryptedKey new = EncodeToString CiphertextBlob"
    and diff: "\<forall>previous. EncryptedKey ?old = EncodeToString previous \<longrightarrow>
              (EncryptedKey new \<noteq> EncryptedKey ?old \<longleftrightarrow> CiphertextBlob \<noteq> previous)"
    and exp: "CurrentDataKey.ExpiresAt new = GeneratedAt new + keyRotationInterval world_started"
    and zeroed: "load (heap ?w') (PlaintextKey ?old) =
             replicate (length (load (heap world_started) (PlaintextKey ?old))) 0"
    and get: "\<not> CurrentDataKey.ExpiresAt new < time_Now env_fresh_kms (ticks ?w') \<longrightarrow>
              fst (GetCurrentDataKey env_fresh_kms ?w') = Inr (Some new) \<and>
              client (snd (GetCurrentDataKey env_fresh_kms ?w')) = client ?w'"
    by blast
  with kms have blob: "CiphertextBlob = [1, 0x42, 0x43]" by simp
  from diff blob have d: "EncryptedKey new \<noteq> EncodeToString [0, 0x42, 0x43]" by simp
  from new have "CurrentDataKey.ExpiresAt new = 3 + 3600000000000"
    by (auto simp add: install_key_def gen interval)
  with get live have g: "fst (GetCurrentDataKey env_fresh_kms ?w') = Inr (Some new)" by simp
  from zeroed old_len have z: "load (heap ?w') 0 = replicate 32 0" by simp
  from key valid rot new enc blob d exp interval z g show ?thesis
    by (intro conjI exI [of _ ?w'] exI [of _ new]) simp_all
qed


section \<open>The KMS manager: resolving an encrypted data key\<close>

lemma EncodeToString_ABC: "EncodeToString [0x41, 0x42, 0x43] = ''QUJD''"
  by (simp add: EncodeToString_def enc_char_def encodeStd_def)

lemma DecodeString_QUJD: "DecodeString ''QUJD'' = Inr [0x41, 0x42, 0x43]"
  using DecodeString_EncodeToString [of "[0x41, 0x42, 0x43]"] by (simp only: EncodeToString_ABC)

lemma check_cache_cache: "decryptionCache (snd (check_cache e k arn w)) = decryptionCache w"
  by (simp add: check_cache_def time_now_def Let_def split: option.splits)

lemma decrypt_with_KMS_cache:
  "key' \<noteq> k \<Longrightarrow>
   map_of (decryptionCache (snd (decrypt_with_KMS e k arn w))) key' = map_of (decryptionCache w) key'"
  by (simp add: decrypt_with_KMS_def client_Decrypt_def time_now_def alloc_def Let_def update_conv'
      split: sum.splits prod.splits)

lemma decrypt_with_KMS_keeps:
  "map_of (decryptionCache w) key' \<noteq> None \<Longrightarrow>
   map_of (decryptionCache (snd (decrypt_with_KMS e k arn w))) key' \<noteq> None"
  by (simp add: decrypt_with_KMS_def client_Decrypt_def time_now_def alloc_def Let_def update_conv'
      split: sum.splits prod.splits)

lemma DecryptDataKey_cache:
  "key' \<noteq> k \<Longrightarrow>
   map_of (decryptionCache (snd (DecryptDataKey e k arn w))) key' = map_of (decryptionCache w) key'"
  using decrypt_with_KMS_cache [of key' k e arn "snd (check_cache e k arn w)"]
    check_cache_cache [of e k arn w]
  by (auto simp add: DecryptDataKey_def split: option.splits prod.splits)

lemma DecryptDataKey_keeps:
  "map_of (decryptionCache w) key' \<noteq> None \<Longrightarrow>
   map_of (decryptionCache (snd (DecryptDataKey e k arn w))) key' \<noteq> None"
  using decrypt_with_KMS_keeps [of "snd (check_cache e k arn w)" key' e k arn]
    check_cache_cache [of e k arn w]
  by (auto simp add: DecryptDataKey_def split: option.splits prod.splits)

lemma EncodeToString_0BC: "EncodeToString [0, 0x42, 0x43] = ''AEJD''"
  by (simp add: EncodeToString_def enc_char_def encodeStd_def)

lemma current_key_match_started: "current_key_match world_started ''QUJD'' = None"
  by (simp add: current_key_match_def world_started_def EncodeToString_0BC)

lemma decrypt_with_KMS_success:
  assumes "DecodeString k = Inr blob"
    and "kms_Decrypt e (length (client w)) blob arn = Inr Plaintext"
  shows "decrypt_with_KMS e k arn w =
    (Inr (length (heap w)),
     w\<lparr>client := client w @ [DecryptCall blob arn],
       decryptionCache := AList.update k
          \<lparr>Key = length (heap w), ExpiresAt = time_Now e (ticks w) + cacheTTL w\<rparr>
          (decryptionCache w),
       heap := heap w @ [Plaintext],
       ticks := Suc (ticks w)\<rparr>)"
  using assms
  by (simp add: decrypt_with_KMS_def client_Decrypt_def alloc_def time_now_def Let_def)

lemma decrypt_with_KMS_failure:
  assumes "DecodeString k = Inr blob"
    and "kms_Decrypt e (length (client w)) blob arn = Inl err"
  shows "decrypt_with_KMS e k arn w =
    (Inl (KeyDecryptionFailed err), w\<lparr>client := client w @ [DecryptCall blob arn]\<rparr>)"
  using assms
  by (simp add: decrypt_with_KMS_def client_Decrypt_def Let_def)

lemma DecryptDataKey_miss:
  assumes "current_key_match w k = None"
    and "map_of (decryptionCache w) (k @ '':'' @ arn) = None"
  shows "DecryptDataKey e k arn w = decrypt_with_KMS e k arn w"
  using assms by (simp add: DecryptDataKey_def check_cache_def)

lemma DecryptDataKey_current:
  assumes "current_key_match w k = Some a"
  shows "DecryptDataKey e k arn w = (Inr a, w)"
  using assms by (simp add: DecryptDataKey_def)

lemma DecryptDataKey_hit:
  assumes "current_key_match w k = None"
    and "map_of (decryptionCache w) (k @ '':'' @ arn) = Some cached"
    and "time_Now e (ticks w) < CachedKey.ExpiresAt cached"
  shows "DecryptDataKey e k arn w = (Inr (Key cached), w\<lparr>ticks := Suc (ticks w)\<rparr>)"
  using assms by (simp add: DecryptDataKey_def check_cache_def time_now_def)

lemma cleanup_loop_absent:
  "map_of (decryptionCache w) key = None \<Longrightarrow>
   map_of (decryptionCache (fst (cleanup_loop now xs w n))) key = None"
proof (induction xs arbitrary: w n)
  case Nil
  then show ?case by simp
next
  case (Cons x xs)
  obtain key' cached where x: "x = (key', cached)" by (cases x)
  show ?case
  proof (cases "CachedKey.ExpiresAt cached < now")
    case True
    let ?w = "w\<lparr>heap := zero_key (heap w) (Key cached),
                decryptionCache := AList.delete key' (decryptionCache w)\<rparr>"
    from Cons.prems have "map_of (decryptionCache ?w) key = None"
      by (simp add: delete_conv')
    then have "map_of (decryptionCache (fst (cleanup_loop now xs ?w (n + 1)))) key = None"
      by (rule Cons.IH)
    with True show ?thesis by (simp add: x)
  next
    case False
    with Cons.IH [OF Cons.prems] show ?thesis by (simp add: x)
  qed
qed

lemma cleanup_loop_removes:
  "(key, cached) \<in> set xs \<Longrightarrow> CachedKey.ExpiresAt cached < now \<Longrightarrow>
   map_of (decryptionCache (fst (cleanup_loop now xs w n))) key = None"
proof (induction xs arbitrary: w n)
  case Nil
  then show ?case by simp
next
  case (Cons x xs)
  obtain key' cached' where x: "x = (key', cached')" by (cases x)
  show ?case
  proof (cases "x = (key, cached)")
    case True
    let ?w = "w\<lparr>heap := zero_key (heap w) (Key cached),
                decryptionCache := AList.delete key (decryptionCache w)\<rparr>"
    have "map_of (decryptionCache ?w) key = None"
      by (simp add: delete_conv')
    then have "map_of (decryptionCache (fst (cleanup_loop now xs ?w (n + 1)))) key = None"
      by (rule cleanup_loop_absent)
    with True Cons.prems(2) show ?thesis by simp
  next
    case False
    with Cons.prems have "(key, cached) \<in> set xs" by simp
    with Cons.IH Cons.prems(2) show ?thesis by (simp add: x)
  qed
qed

lemma CleanupCache_removes:
  assumes "map_of (decryptionCache w) key = Some cached"
    and "CachedKey.ExpiresAt cached < time_Now e (ticks w)"
  shows "map_of (decryptionCache (CleanupCache e w)) key = None"
proof -
  from assms(1) have "(key, cached) \<in> set (decryptionCache w)"
    by (rule map_of_SomeD)
  with assms(2) show ?thesis
    by (simp add: CleanupCache_def time_now_def cleanup_loop_removes)
qed

lemma DecryptDataKey_ticks_mono: "ticks w \<le> ticks (snd (DecryptDataKey e k arn w))"
  by (auto simp add: DecryptDataKey_def check_cache_def decrypt_with_KMS_def client_Decrypt_def
      time_now_def alloc_def Let_def split: option.splits sum.splits prod.splits if_splits)

lemma DecryptDataKey_currentDataKey:
  "currentDataKey (snd (DecryptDataKey e k arn w)) = currentDataKey w"
  by (auto simp add: DecryptDataKey_def check_cache_def decrypt_with_KMS_def client_Decrypt_def
      time_now_def alloc_def Let_def split: option.splits sum.splits prod.splits)

text \<open>
  A call that found neither the current key nor a live cache entry leaves a state in which
  the same call finds neither again: what it stored is under another key than it reads.
\<close>

lemma DecryptDataKey_misses_again:
  assumes clock: "\<And>i j. i \<le> j \<Longrightarrow> time_Now e i \<le> time_Now e j"
    and "current_key_match w k = None"
    and "fst (check_cache e k arn w) = None"
  shows "current_key_match (snd (DecryptDataKey e k arn w)) k = None \<and>
         fst (check_cache e k arn (snd (DecryptDataKey e k arn w))) = None"
proof
  let ?w1 = "snd (DecryptDataKey e k arn w)"
  show "current_key_match ?w1 k = None"
    using assms(2) by (simp add: current_key_match_def DecryptDataKey_currentDataKey)
  have same: "map_of (decryptionCache ?w1) (k @ '':'' @ arn) = map_of (decryptionCache w) (k @ '':'' @ arn)"
    by (rule DecryptDataKey_cache) simp
  show "fst (check_cache e k arn ?w1) = None"
  proof (cases "map_of (decryptionCache w) (k @ '':'' @ arn)")
    case None
    with same show ?thesis by (simp add: check_cache_def)
  next
    case (Some cached)
    with assms(3) have "\<not> time_Now e (ticks w) < CachedKey.ExpiresAt cached"
      by (simp add: check_cache_def time_now_def split: if_splits)
    moreover have "time_Now e (ticks w) \<le> time_Now e (ticks ?w1)"
      by (rule clock) (rule DecryptDataKey_ticks_mono)
    ultimately have "\<not> time_Now e (ticks ?w1) < CachedKey.ExpiresAt cached"
      by simp
    with same Some show ?thesis
      by (simp add: check_cache_def time_now_def)
  qed
qed

text \<open>
  Claim C2. \<open>DecryptDataKey\<close> returns the plaintext of the current key without a KMS
  request when the blob is the current key's (\<open>DecryptDataKey_current\<close>), and sends
  exactly one \<open>Decrypt\<close> request and stores the result with the configured TTL when the
  cache has no live entry (\<open>decrypt_with_KMS_success\<close>). The middle step fails: the result
  is stored under \<open>encryptedKey\<close> and looked up under \<open>encryptedKey:masterKeyARN\<close>, so a
  blob resolved by an earlier call is not found again. Here the manager built by
  \<open>NewKMSManager\<close> resolves the blob \<open>QUJD\<close> twice in a row: the first call stores an
  entry that is still live when the second call starts, and the second call sends a
  second \<open>Decrypt\<close> request to the KMS all the same.
\<close>

theorem DecryptDataKey_second_call_reaches_KMS:
  "\<exists>a1 w1 cached a2 w2.
     DecryptDataKey env_fresh_kms ''QUJD'' ''arn:aws:kms:key/1'' world_started = (Inr a1, w1) \<and>
     map_of (decryptionCache w1) ''QUJD'' = Some cached \<and>
     time_Now env_fresh_kms (ticks w1) < CachedKey.ExpiresAt cached \<and>
     DecryptDataKey env_fresh_kms ''QUJD'' ''arn:aws:kms:key/1'' w1 = (Inr a2, w2) \<and>
     client w2 = client world_started @
       [DecryptCall [0x41, 0x42, 0x43] ''arn:aws:kms:key/1'',
        DecryptCall [0x41, 0x42, 0x43] ''arn:aws:kms:key/1'']"
proof -
  let ?arn = "''arn:aws:kms:key/1''"
  let ?e = env_fresh_kms
  obtain w1 where w1: "w1 = snd (decrypt_with_KMS ?e ''QUJD'' ?arn world_started)" by simp
  have up: "kms_Decrypt ?e n [0x41, 0x42, 0x43] ?arn = Inr (replicate 32 0x22)" for n
    by (simp add: env_fresh_kms_def)
  have c0: "map_of (decryptionCache world_started) (''QUJD'' @ '':'' @ ?arn) = None"
    by (simp add: world_started_def)
  have first: "DecryptDataKey ?e ''QUJD'' ?arn world_started = (Inr 1, w1)"
    unfolding w1 DecryptDataKey_miss [OF current_key_match_started c0]
    by (simp add: decrypt_with_KMS_success [OF DecodeString_QUJD up])
      (simp add: world_started_def)
  have w1_eq: "w1 = world_started\<lparr>client := client world_started @ [DecryptCall [0x41, 0x42, 0x43] ?arn],
       decryptionCache := AList.update ''QUJD''
          \<lparr>Key = length (heap world_started),
           ExpiresAt = time_Now ?e (ticks world_started) + cacheTTL world_started\<rparr>
          (decryptionCache world_started),
       heap := heap world_started @ [replicate 32 0x22],
       ticks := Suc (ticks world_started)\<rparr>"
    unfolding w1 by (simp add: decrypt_with_KMS_success [OF DecodeString_QUJD up])
  have stored: "map_of (decryptionCache w1) ''QUJD'' = Some \<lparr>Key = 1, ExpiresAt = 86400000000002\<rparr>"
    by (simp add: w1_eq update_conv' world_started_def env_fresh_kms_def)
  have live: "time_Now ?e (ticks w1) < CachedKey.ExpiresAt \<lparr>Key = 1, ExpiresAt = 86400000000002\<rparr>"
    by (simp add: w1_eq world_started_def env_fresh_kms_def)
  have m: "current_key_match w1 ''QUJD'' = None"
    using current_key_match_started by (simp add: w1_eq current_key_match_def)
  have c: "map_of (decryptionCache w1) (''QUJD'' @ '':'' @ ?arn) = None"
    by (simp add: w1_eq update_conv' world_started_def)
  have second: "DecryptDataKey ?e ''QUJD'' ?arn w1 =
      (Inr 2, snd (decrypt_with_KMS ?e ''QUJD'' ?arn w1))"
    unfolding DecryptDataKey_miss [OF m c]
    by (simp add: decrypt_with_KMS_success [OF DecodeString_QUJD up])
      (simp add: w1_eq world_started_def)
  have log: "client (snd (decrypt_with_KMS ?e ''QUJD'' ?arn w1)) =
      client world_started @ [DecryptCall [0x41, 0x42, 0x43] ?arn, DecryptCall [0x41, 0x42, 0x43] ?arn]"
    by (simp add: decrypt_with_KMS_success [OF DecodeString_QUJD up]) (simp add: w1_eq)
  from first stored live second log show ?thesis
    by blast
qed

lemma DecryptDataKey_first_call:
  "DecryptDataKey env_flaky_kms ''QUJD'' ''arn:aws:kms:key/1'' world_started
     = (Inr 1, world_after_first_call)"
proof -
  have up: "kms_Decrypt env_flaky_kms (length (client world_started)) [0x41, 0x42, 0x43]
      ''arn:aws:kms:key/1'' = Inr (replicate 32 0x22)"
    by (simp add: env_flaky_kms_def world_started_def)
  have c0: "map_of (decryptionCache world_started) (''QUJD'' @ '':'' @ ''arn:aws:kms:key/1'') = None"
    by (simp add: world_started_def)
  show ?thesis
    unfolding DecryptDataKey_miss [OF current_key_match_started c0]
      decrypt_with_KMS_success [OF DecodeString_QUJD up]
    by (simp add: world_started_def world_after_first_call_def env_flaky_kms_def)
qed

lemma DecryptDataKey_second_call:
  "DecryptDataKey env_flaky_kms ''QUJD'' ''arn:aws:kms:key/1'' world_after_first_call
     = (Inl (KeyDecryptionFailed (KmsError ''unavailable'')),
        world_after_first_call\<lparr>client := client world_after_first_call @
          [DecryptCall [0x41, 0x42, 0x43] ''arn:aws:kms:key/1'']\<rparr>)"
proof -
  have m: "current_key_match world_after_first_call ''QUJD'' = None"
    by (simp add: current_key_match_def world_after_first_call_def EncodeToString_0BC)
  have c: "map_of (decryptionCache world_after_first_call)
      (''QUJD'' @ '':'' @ ''arn:aws:kms:key/1'') = None"
    by (simp add: world_after_first_call_def)
  have down: "kms_Decrypt env_flaky_kms (length (client world_after_first_call))
      [0x41, 0x42, 0x43] ''arn:aws:kms:key/1'' = Inl (KmsError ''unavailable'')"
    by (simp add: world_after_first_call_def env_flaky_kms_def)
  show ?thesis
    unfolding DecryptDataKey_miss [OF m c]
    by (rule decrypt_with_KMS_failure [OF DecodeString_QUJD down])
qed

subsection \<open>The keys of the decryption cache\<close>

text \<open>
  A string that \<open>DecodeString\<close> accepts consists of characters of the alphabet, padding
  and line breaks, so it has no colon; a cache whose keys are all accepted has no entry
  under a key \<open>encryptedKey:masterKeyARN\<close>.
\<close>

lemma finish_padding_chars:
  "finish_padding dbuf rest = Inr out \<Longrightarrow> c \<in> set rest \<Longrightarrow> is_newline c"
  by (auto simp add: finish_padding_def dropWhile_eq_Nil_conv split: if_splits)

lemma dropWhile_Cons_chars:
  assumes "dropWhile P xs = y # ys" and "c \<in> set xs"
  shows "P c \<or> c = y \<or> c \<in> set ys"
proof -
  have "set xs = set (takeWhile P xs) \<union> set (dropWhile P xs)"
    by (metis set_append takeWhile_dropWhile_id)
  with assms show ?thesis
    by (auto dest: set_takeWhileD)
qed

lemma b64_Decode_chars:
  "b64_Decode dbuf s = Inr out \<Longrightarrow> c \<in> set s \<Longrightarrow>
   decodeMap c \<noteq> None \<or> is_newline c \<or> c = padChar"
proof (induction dbuf s arbitrary: out rule: b64_Decode.induct)
  case (1 dbuf)
  then show ?case by simp
next
  case (2 dbuf ch rest)
  show ?case
  proof (cases "decodeMap ch")
    case (Some v)
    show ?thesis
    proof (cases "c = ch")
      case True
      with Some show ?thesis by simp
    next
      case False
      with "2.prems"(2) have c: "c \<in> set rest" by simp
      show ?thesis
      proof (cases "length dbuf = 3")
        case True
        with Some "2.prems"(1) obtain out' where "b64_Decode [] rest = Inr out'"
          by (auto split: sum.splits)
        with "2.IH" Some True c show ?thesis by blast
      next
        case False
        with Some "2.prems"(1) have "b64_Decode (dbuf @ [v]) rest = Inr out" by simp
        with "2.IH" Some False c show ?thesis by blast
      qed
    qed
  next
    case None
    show ?thesis
    proof (cases "is_newline ch")
      case True
      show ?thesis
      proof (cases "c = ch")
        case True
        with \<open>is_newline ch\<close> show ?thesis by simp
      next
        case False
        with "2.prems"(2) have c: "c \<in> set rest" by simp
        from None True "2.prems"(1) have "b64_Decode dbuf rest = Inr out" by simp
        with "2.IH" None True c show ?thesis by blast
      qed
    next
      case False
      with None "2.prems"(1) have pad: "ch = padChar"
        by (auto split: if_splits)
      show ?thesis
      proof (cases "c = ch")
        case True
        with pad show ?thesis by simp
      next
        case nc: False
        with "2.prems"(2) have c: "c \<in> set rest" by simp
        show ?thesis
        proof (cases "length dbuf = 2")
          case True
          with None False pad "2.prems"(1) obtain c' rest' where
            d: "dropWhile is_newline rest = c' # rest'" and c': "c' = padChar"
            and f: "finish_padding dbuf rest' = Inr out"
            by (auto split: list.splits if_splits)
          from dropWhile_Cons_chars [OF d c] c' finish_padding_chars [OF f] show ?thesis
            by auto
        next
          case nl: False
          with None False pad "2.prems"(1) have "finish_padding dbuf rest = Inr out"
            by (auto split: if_splits)
          from finish_padding_chars [OF this c] show ?thesis by simp
        qed
      qed
    qed
  qed
qed

lemma DecodeString_no_colon:
  assumes "DecodeString s = Inr blob"
  shows "CHR '':'' \<notin> set s"
proof
  assume "CHR '':'' \<in> set s"
  with assms have "decodeMap CHR '':'' \<noteq> None \<or> is_newline CHR '':'' \<or> CHR '':'' = padChar"
    unfolding DecodeString_def by (rule b64_Decode_chars)
  then show False
    by (simp add: decodeMap_def encodeStd_def is_newline_def padChar_def)
qed

lemma cache_keys_decoded_key:
  assumes "cache_keys_decoded w" and "map_of (decryptionCache w) k = Some cached"
  shows "\<not> isl (DecodeString k)"
proof -
  from assms(2) have "(k, cached) \<in> set (decryptionCache w)"
    by (rule map_of_SomeD)
  then have "k \<in> fst ` set (decryptionCache w)"
    by force
  with assms(1) show ?thesis
    unfolding cache_keys_decoded_def by blast
qed

lemma cache_keys_decoded_entry:
  assumes "cache_keys_decoded w" and "map_of (decryptionCache w) k = Some cached"
  obtains blob where "DecodeString k = Inr blob"
  using cache_keys_decoded_key [OF assms] that by (cases "DecodeString k") simp_all

lemma cache_keys_decoded_miss:
  assumes "cache_keys_decoded w"
  shows "map_of (decryptionCache w) (k @ '':'' @ arn) = None"
proof (cases "map_of (decryptionCache w) (k @ '':'' @ arn)")
  case None
  then show ?thesis .
next
  case (Some cached)
  with assms obtain blob where "DecodeString (k @ '':'' @ arn) = Inr blob"
    by (rule cache_keys_decoded_entry)
  from DecodeString_no_colon [OF this] show ?thesis by simp
qed

text \<open>
  The manager that \<open>NewKMSManager\<close> builds has decodable cache keys, and every operation
  of the manager and both handlers keep them so.
\<close>

lemma cache_keys_decoded_subset:
  assumes "cache_keys_decoded w"
    and "fst ` set (decryptionCache w') \<subseteq> fst ` set (decryptionCache w)"
  shows "cache_keys_decoded w'"
  using assms unfolding cache_keys_decoded_def by blast

lemma rotateDataKeyLocked_decryptionCache:
  "decryptionCache (snd (rotateDataKeyLocked e w)) = decryptionCache w"
  by (simp add: rotateDataKeyLocked_cases install_key_def split: sum.splits prod.splits)

lemma NewKMSManager_cache_keys_decoded:
  assumes "NewKMSManager e keyID' cacheTTL' rotationInterval = Inr w"
  shows "cache_keys_decoded w"
proof -
  let ?m = "\<lparr>client = [], keyID = keyID', currentDataKey = None,
             decryptionCache = [], cacheTTL = cacheTTL',
             keyRotationInterval = rotationInterval,
             heap = [], ticks = 0, encrypts = 0\<rparr>"
  from assms have "w = snd (rotateDataKeyLocked e ?m)"
    by (auto simp add: NewKMSManager_def rotateDataKey_def Let_def
        split: if_splits prod.splits option.splits)
  then have "decryptionCache w = []"
    by (simp add: rotateDataKeyLocked_decryptionCache)
  then show ?thesis
    by (simp add: cache_keys_decoded_def)
qed

lemma rotateDataKey_cache_keys_decoded:
  "cache_keys_decoded w \<Longrightarrow> cache_keys_decoded (snd (rotateDataKey e w))"
  by (erule cache_keys_decoded_subset)
    (simp add: rotateDataKey_def rotateDataKeyLocked_decryptionCache)

lemma GetCurrentDataKey_decryptionCache:
  "decryptionCache (snd (GetCurrentDataKey e w)) = decryptionCache w"
proof -
  have r: "decryptionCache w' = decryptionCache w0" if "rotateDataKeyLocked e w0 = (x, w')" for x w0 w'
    using rotateDataKeyLocked_decryptionCache [of e w0] that by simp
  show ?thesis
    by (auto simp add: GetCurrentDataKey_def rotation_needed_def time_now_def Let_def
        split: option.splits prod.splits bool.splits dest: r)
qed

lemma GetCurrentDataKey_cache_keys_decoded:
  "cache_keys_decoded w \<Longrightarrow> cache_keys_decoded (snd (GetCurrentDataKey e w))"
  by (erule cache_keys_decoded_subset) (simp add: GetCurrentDataKey_decryptionCache)

lemma decrypt_with_KMS_keys:
  "fst ` set (decryptionCache (snd (decrypt_with_KMS e k arn w))) = fst ` set (decryptionCache w) \<or>
   \<not> isl (DecodeString k) \<and>
   fst ` set (decryptionCache (snd (decrypt_with_KMS e k arn w))) = {k} \<union> fst ` set (decryptionCache w)"
  by (simp add: decrypt_with_KMS_def client_Decrypt_def time_now_def alloc_def Let_def dom_update
      split: sum.splits prod.splits)

lemma decrypt_with_KMS_cache_keys_decoded:
  assumes "cache_keys_decoded w"
  shows "cache_keys_decoded (snd (decrypt_with_KMS e k arn w))"
proof -
  from decrypt_with_KMS_keys [of e k arn w] consider
    (same) "fst ` set (decryptionCache (snd (decrypt_with_KMS e k arn w)))
      = fst ` set (decryptionCache w)"
    | (new) "\<not> isl (DecodeString k)"
      "fst ` set (decryptionCache (snd (decrypt_with_KMS e k arn w)))
        = {k} \<union> fst ` set (decryptionCache w)"
    by blast
  then show ?thesis
  proof cases
    case same
    with assms show ?thesis
      by (simp add: cache_keys_decoded_subset)
  next
    case new
    have "\<forall>key \<in> {k} \<union> fst ` set (decryptionCache w). \<not> isl (DecodeString key)"
      using assms new(1) unfolding cache_keys_decoded_def by blast
    then show ?thesis
      unfolding cache_keys_decoded_def new(2) .
  qed
qed

lemma DecryptDataKey_cache_keys_decoded:
  assumes "cache_keys_decoded w"
  shows "cache_keys_decoded (snd (DecryptDataKey e k arn w))"
proof -
  from assms have c: "cache_keys_decoded (snd (check_cache e k arn w))"
    by (rule cache_keys_decoded_subset) (simp add: check_cache_cache)
  then have "cache_keys_decoded (snd (decrypt_with_KMS e k arn (snd (check_cache e k arn w))))"
    by (rule decrypt_with_KMS_cache_keys_decoded)
  with assms c show ?thesis
    by (auto simp add: DecryptDataKey_def split: option.splits prod.splits)
qed

lemma cleanup_loop_keys:
  "fst ` set (decryptionCache (fst (cleanup_loop now xs w n))) \<subseteq> fst ` set (decryptionCache w)"
proof (induction xs arbitrary: w n)
  case Nil
  show ?case by simp
next
  case (Cons x xs)
  obtain key cached where x: "x = (key, cached)" by (cases x)
  show ?case
  proof (cases "CachedKey.ExpiresAt cached < now")
    case True
    let ?w = "w\<lparr>heap := zero_key (heap w) (Key cached),
                decryptionCache := AList.delete key (decryptionCache w)\<rparr>"
    have "fst ` set (decryptionCache (fst (cleanup_loop now xs ?w (n + 1))))
        \<subseteq> fst ` set (decryptionCache ?w)"
      by (rule Cons.IH)
    also have "\<dots> \<subseteq> fst ` set (decryptionCache w)"
      using dom_delete_subset [of key "decryptionCache w"] by simp
    finally show ?thesis using True by (simp add: x)
  next
    case False
    with Cons.IH [of w n] show ?thesis by (simp add: x)
  qed
qed

lemma CleanupCache_cache_keys_decoded:
  assumes "cache_keys_decoded w"
  shows "cache_keys_decoded (CleanupCache e w)"
  using assms
proof (rule cache_keys_decoded_subset)
  show "fst ` set (decryptionCache (CleanupCache e w)) \<subseteq> fst ` set (decryptionCache w)"
    using cleanup_loop_keys [of "time_Now e (ticks w)" "decryptionCache w"
        "w\<lparr>ticks := Suc (ticks w)\<rparr>" 0]
    by (simp add: CleanupCache_def time_now_def)
qed

lemma encode_payload_cache_keys_decoded:
  assumes "cache_keys_decoded w"
  shows "cache_keys_decoded (snd (encode_payload e p w))"
  using assms
proof (rule cache_keys_decoded_subset)
  have "decryptionCache (snd (encode_payload e p w)) = decryptionCache (snd (GetCurrentDataKey e w))"
    by (simp add: encode_payload_def Let_def split: prod.splits sum.splits option.splits)
  then show "fst ` set (decryptionCache (snd (encode_payload e p w))) \<subseteq> fst ` set (decryptionCache w)"
    by (simp add: GetCurrentDataKey_decryptionCache)
qed

lemma encode_loop_cache_keys_decoded:
  "cache_keys_decoded w \<Longrightarrow> cache_keys_decoded (snd (encode_loop e ps acc w))"
proof (induction ps arbitrary: acc w)
  case Nil
  then show ?case by simp
next
  case (Cons p ps)
  from Cons.prems have "cache_keys_decoded (snd (encode_payload e p w))"
    by (rule encode_payload_cache_keys_decoded)
  with Cons show ?case
    by (auto split: prod.splits sum.splits)
qed

lemma handleEncode_cache_keys_decoded:
  assumes "cache_keys_decoded w"
  shows "cache_keys_decoded (snd (handleEncode e r w))"
proof -
  have "snd (handleEncode e r w) = w \<or>
      (\<exists>ps. snd (handleEncode e r w) = snd (encode_loop e ps [] w))"
  proof (cases "Method r \<noteq> ''POST'' \<or> Body r = None")
    case True
    then have "snd (handleEncode e r w) = w"
      by (auto simp add: handleEncode_def)
    then show ?thesis ..
  next
    case False
    then obtain req where "Method r = ''POST''" "Body r = Some req"
      by auto
    then have "snd (handleEncode e r w) = snd (encode_loop e (CodecRequest.Payloads req) [] w)"
      by (simp add: handleEncode_def split: prod.splits sum.splits)
    then show ?thesis by blast
  qed
  then show ?thesis
  proof
    assume "snd (handleEncode e r w) = w"
    with assms show ?thesis by simp
  next
    assume "\<exists>ps. snd (handleEncode e r w) = snd (encode_loop e ps [] w)"
    then obtain ps where "snd (handleEncode e r w) = snd (encode_loop e ps [] w)" ..
    with encode_loop_cache_keys_decoded [OF assms, of e ps "[]"] show ?thesis by simp
  qed
qed

lemma decode_payload_cache_keys_decoded:
  assumes "cache_keys_decoded w"
  shows "cache_keys_decoded (snd (decode_payload e p w))"
  using assms DecryptDataKey_cache_keys_decoded [OF assms, of e "EncryptedDataKey p" "KMSKeyID p"]
  by (auto simp add: decode_payload_def split: prod.splits sum.splits)

lemma decode_loop_cache_keys_decoded:
  "cache_keys_decoded w \<Longrightarrow> cache_keys_decoded (snd (decode_loop e ps acc w))"
proof (induction ps arbitrary: acc w)
  case Nil
  then show ?case by simp
next
  case (Cons p ps)
  from Cons.prems have "cache_keys_decoded (snd (decode_payload e p w))"
    by (rule decode_payload_cache_keys_decoded)
  with Cons show ?case
    by (auto split: prod.splits sum.splits)
qed

lemma handleDecode_cache_keys_decoded:
  assumes "cache_keys_decoded w"
  shows "cache_keys_decoded (snd (handleDecode e r w))"
proof -
  have "snd (handleDecode e r w) = w \<or>
      (\<exists>ps. snd (handleDecode e r w) = snd (decode_loop e ps [] w))"
  proof (cases "Method r \<noteq> ''POST'' \<or> Body r = None")
    case True
    then have "snd (handleDecode e r w) = w"
      by (auto simp add: handleDecode_def)
    then show ?thesis ..
  next
    case False
    then obtain req where "Method r = ''POST''" "Body r = Some req"
      by auto
    then have "snd (handleDecode e r w) = snd (decode_loop e (CodecRequest.Payloads req) [] w)"
      by (simp add: handleDecode_def split: prod.splits sum.splits)
    then show ?thesis by blast
  qed
  then show ?thesis
  proof
    assume "snd (handleDecode e r w) = w"
    with assms show ?thesis by simp
  next
    assume "\<exists>ps. snd (handleDecode e r w) = snd (decode_loop e ps [] w)"
    then obtain ps where "snd (handleDecode e r w) = snd (decode_loop e ps [] w)" ..
    with decode_loop_cache_keys_decoded [OF assms, of e ps "[]"] show ?thesis by simp
  qed
qed

lemma NewKMSManager_outage:
  "NewKMSManager env_outage_kms ''arn:aws:kms:key/1'' 86400000000000 3600000000000
     = Inr world_started"
  by (simp add: NewKMSManager_def rotateDataKey_def rotateDataKeyLocked_cases install_key_def
      env_outage_kms_def world_started_def)

lemma DecryptDataKey_outage_first_call:
  "DecryptDataKey env_outage_kms ''QUJD'' ''arn:aws:kms:key/1'' world_started
     = (Inr 1, world_cached_key)"
proof -
  have up: "kms_Decrypt env_outage_kms (length (client world_started)) [0x41, 0x42, 0x43]
      ''arn:aws:kms:key/1'' = Inr (replicate 32 1)"
    by (simp add: env_outage_kms_def world_started_def)
  have c0: "map_of (decryptionCache world_started) (''QUJD'' @ '':'' @ ''arn:aws:kms:key/1'') = None"
    by (simp add: world_started_def)
  show ?thesis
    unfolding DecryptDataKey_miss [OF current_key_match_started c0]
      decrypt_with_KMS_success [OF DecodeString_QUJD up]
    by (simp add: world_started_def world_cached_key_def env_outage_kms_def)
qed

text \<open>
  Claim C7, as stated, fails: no read removes a cache entry. Here the first call stores an
  entry for the blob \<open>QUJD\<close>; when the second call starts the entry has expired; the second
  call sends its request to the KMS, which is unavailable, and the expired entry is in the
  cache afterwards as it was before.
\<close>

theorem DecryptDataKey_keeps_expired_entry_counterexample:
  "DecryptDataKey env_flaky_kms ''QUJD'' ''arn:aws:kms:key/1'' world_started
     = (Inr 1, world_after_first_call) \<and>
   map_of (decryptionCache world_after_first_call) ''QUJD''
     = Some \<lparr>Key = 1, ExpiresAt = 286400000000000\<rparr> \<and>
   286400000000000 < time_Now env_flaky_kms (ticks world_after_first_call) \<and>
   fst (DecryptDataKey env_flaky_kms ''QUJD'' ''arn:aws:kms:key/1'' world_after_first_call)
     = Inl (KeyDecryptionFailed (KmsError ''unavailable'')) \<and>
   client (snd (DecryptDataKey env_flaky_kms ''QUJD'' ''arn:aws:kms:key/1'' world_after_first_call))
     = client world_after_first_call @ [DecryptCall [0x41, 0x42, 0x43] ''arn:aws:kms:key/1''] \<and>
   map_of (decryptionCache
       (snd (DecryptDataKey env_flaky_kms ''QUJD'' ''arn:aws:kms:key/1'' world_after_first_call)))
     ''QUJD'' = Some \<lparr>Key = 1, ExpiresAt = 286400000000000\<rparr>"
  unfolding DecryptDataKey_first_call DecryptDataKey_second_call
  by (simp add: world_after_first_call_def env_flaky_kms_def)

text \<open>
  Claim C7, amended. In every state that the manager can reach (every key of the cache
  is a string that \<open>DecodeString\<close> accepts) and for every call of \<open>DecryptDataKey\<close> whose
  blob is not the current key's and has a cache entry that expired before now: the entry
  is treated as absent, the call sending one \<open>Decrypt\<close> request for the decoded blob to
  the KMS instead of returning the entry's plaintext. The call does not remove the entry:
  when the KMS fails, the call fails and the entry is in the cache as it was; when the KMS
  answers, the call returns the new plaintext and the entry is overwritten by the new
  result, which expires one TTL after now. The call removes no entry and changes no other
  entry; an entry that has expired when the call is over is removed by \<open>CleanupCache\<close>.
\<close>

theorem DecryptDataKey_expired_entry:
  assumes "cache_keys_decoded w"
    and "current_key_match w k = None"
    and "map_of (decryptionCache w) k = Some cached"
    and "CachedKey.ExpiresAt cached < time_Now e (ticks w)"
  shows "(\<exists>blob. DecodeString k = Inr blob \<and>
      client (snd (DecryptDataKey e k arn w)) = client w @ [DecryptCall blob arn] \<and>
      (\<forall>err. kms_Decrypt e (length (client w)) blob arn = Inl err \<longrightarrow>
         DecryptDataKey e k arn w =
           (Inl (KeyDecryptionFailed err), w\<lparr>client := client w @ [DecryptCall blob arn]\<rparr>) \<and>
         map_of (decryptionCache (snd (DecryptDataKey e k arn w))) k = Some cached) \<and>
      (\<forall>Plaintext. kms_Decrypt e (length (client w)) blob arn = Inr Plaintext \<longrightarrow>
         fst (DecryptDataKey e k arn w) = Inr (length (heap w)) \<and>
         load (heap (snd (DecryptDataKey e k arn w))) (length (heap w)) = Plaintext \<and>
         map_of (decryptionCache (snd (DecryptDataKey e k arn w))) k =
           Some \<lparr>Key = length (heap w), ExpiresAt = time_Now e (ticks w) + cacheTTL w\<rparr>)) \<and>
    (\<forall>key'. map_of (decryptionCache w) key' \<noteq> None \<longrightarrow>
       map_of (decryptionCache (snd (DecryptDataKey e k arn w))) key' \<noteq> None) \<and>
    (\<forall>key'. key' \<noteq> k \<longrightarrow>
       map_of (decryptionCache (snd (DecryptDataKey e k arn w))) key' = map_of (decryptionCache w) key') \<and>
    (\<forall>key' c.
       map_of (decryptionCache (snd (DecryptDataKey e k arn w))) key' = Some c \<and>
       CachedKey.ExpiresAt c < time_Now e (ticks (snd (DecryptDataKey e k arn w))) \<longrightarrow>
       map_of (decryptionCache (CleanupCache e (snd (DecryptDataKey e k arn w)))) key' = None) \<and>
    cache_keys_decoded (snd (DecryptDataKey e k arn w))"
proof -
  from assms(1,3) obtain blob where blob: "DecodeString k = Inr blob"
    by (rule cache_keys_decoded_entry)
  have run: "DecryptDataKey e k arn w = decrypt_with_KMS e k arn w"
    using assms(2) cache_keys_decoded_miss [OF assms(1)] by (rule DecryptDataKey_miss)
  have log: "client (snd (DecryptDataKey e k arn w)) = client w @ [DecryptCall blob arn]"
    unfolding run
    by (simp add: decrypt_with_KMS_def blob client_Decrypt_def alloc_def time_now_def Let_def
        split: sum.splits)
  have down: "DecryptDataKey e k arn w =
           (Inl (KeyDecryptionFailed err), w\<lparr>client := client w @ [DecryptCall blob arn]\<rparr>) \<and>
         map_of (decryptionCache (snd (DecryptDataKey e k arn w))) k = Some cached"
    if "kms_Decrypt e (length (client w)) blob arn = Inl err" for err
    unfolding run decrypt_with_KMS_failure [OF blob that] using assms(3) by simp
  have up: "fst (DecryptDataKey e k arn w) = Inr (length (heap w)) \<and>
         load (heap (snd (DecryptDataKey e k arn w))) (length (heap w)) = Plaintext \<and>
         map_of (decryptionCache (snd (DecryptDataKey e k arn w))) k =
           Some \<lparr>Key = length (heap w), ExpiresAt = time_Now e (ticks w) + cacheTTL w\<rparr>"
    if "kms_Decrypt e (length (client w)) blob arn = Inr Plaintext" for Plaintext
    unfolding run decrypt_with_KMS_success [OF blob that]
    by (simp add: load_append_new update_conv')
  have kept: "map_of (decryptionCache (snd (DecryptDataKey e k arn w))) key' \<noteq> None"
    if "map_of (decryptionCache w) key' \<noteq> None" for key'
    using that by (rule DecryptDataKey_keeps)
  have others: "map_of (decryptionCache (snd (DecryptDataKey e k arn w))) key'
      = map_of (decryptionCache w) key'" if "key' \<noteq> k" for key'
    using that by (rule DecryptDataKey_cache)
  have swept: "map_of (decryptionCache (CleanupCache e (snd (DecryptDataKey e k arn w)))) key' = None"
    if "map_of (decryptionCache (snd (DecryptDataKey e k arn w))) key' = Some c \<and>
       CachedKey.ExpiresAt c < time_Now e (ticks (snd (DecryptDataKey e k arn w)))" for key' c
    using that CleanupCache_removes by blast
  have inv: "cache_keys_decoded (snd (DecryptDataKey e k arn w))"
    using assms(1) by (rule DecryptDataKey_cache_keys_decoded)
  from blob log down up have "\<exists>blob. DecodeString k = Inr blob \<and>
      client (snd (DecryptDataKey e k arn w)) = client w @ [DecryptCall blob arn] \<and>
      (\<forall>err. kms_Decrypt e (length (client w)) blob arn = Inl err \<longrightarrow>
         DecryptDataKey e k arn w =
           (Inl (KeyDecryptionFailed err), w\<lparr>client := client w @ [DecryptCall blob arn]\<rparr>) \<and>
         map_of (decryptionCache (snd (DecryptDataKey e k arn w))) k = Some cached) \<and>
      (\<forall>Plaintext. kms_Decrypt e (length (client w)) blob arn = Inr Plaintext \<longrightarrow>
         fst (DecryptDataKey e k arn w) = Inr (length (heap w)) \<and>
         load (heap (snd (DecryptDataKey e k arn w))) (length (heap w)) = Plaintext \<and>
         map_of (decryptionCache (snd (DecryptDataKey e k arn w))) k =
           Some \<lparr>Key = length (heap w), ExpiresAt = time_Now e (ticks w) + cacheTTL w\<rparr>)"
    by blast
  with kept others swept inv show ?thesis
    by blast
qed

theorem DecryptDataKey_expired_entry_witness:
  "NewKMSManager env_outage_kms ''arn:aws:kms:key/1'' 86400000000000 3600000000000
     = Inr world_started \<and>
   DecryptDataKey env_outage_kms ''QUJD'' ''arn:aws:kms:key/1'' world_started
     = (Inr 1, world_cached_key) \<and>
   cache_keys_decoded world_cached_key \<and>
   current_key_match world_cached_key ''QUJD'' = None \<and>
   map_of (decryptionCache world_cached_key) ''QUJD'' = Some \<lparr>Key = 1, ExpiresAt = 86400000000002\<rparr> \<and>
   86400000000002 < time_Now env_outage_kms (ticks world_cached_key) \<and>
   DecryptDataKey env_outage_kms ''QUJD'' ''arn:aws:kms:key/1'' world_cached_key
     = (Inl (KeyDecryptionFailed (KmsError ''unavailable'')), world_after_outage) \<and>
   client world_after_outage
     = client world_cached_key @ [DecryptCall [0x41, 0x42, 0x43] ''arn:aws:kms:key/1''] \<and>
   map_of (decryptionCache world_after_outage) ''QUJD''
     = Some \<lparr>Key = 1, ExpiresAt = 86400000000002\<rparr> \<and>
   map_of (decryptionCache (CleanupCache env_outage_kms world_after_outage)) ''QUJD'' = None \<and>
   cache_keys_decoded world_after_outage \<and>
   current_key_match world_after_outage ''QUJD'' = None \<and>
   86400000000002 < time_Now env_outage_kms (ticks world_after_outage) \<and>
   fst (DecryptDataKey env_outage_kms ''QUJD'' ''arn:aws:kms:key/1'' world_after_outage) = Inr 2 \<and>
   load (heap (snd (DecryptDataKey env_outage_kms ''QUJD'' ''arn:aws:kms:key/1'' world_after_outage))) 2
     = replicate 32 3 \<and>
   map_of (decryptionCache
       (snd (DecryptDataKey env_outage_kms ''QUJD'' ''arn:aws:kms:key/1'' world_after_outage)))
     ''QUJD'' = Some \<lparr>Key = 2, ExpiresAt = 386400000000000\<rparr>"
proof -
  let ?arn = "''arn:aws:kms:key/1''"
  let ?e = env_outage_kms
  let ?c = "\<lparr>Key = 1, ExpiresAt = 86400000000002\<rparr>"
  let ?blob = "[0x41, 0x42, 0x43] :: bytes"
  let ?w2 = "snd (DecryptDataKey ?e ''QUJD'' ?arn world_cached_key)"
  let ?w3 = "snd (DecryptDataKey ?e ''QUJD'' ?arn world_after_outage)"
  note start = NewKMSManager_outage
  note first = DecryptDataKey_outage_first_call
  from start have "cache_keys_decoded world_started"
    by (rule NewKMSManager_cache_keys_decoded)
  then have "cache_keys_decoded (snd (DecryptDataKey ?e ''QUJD'' ?arn world_started))"
    by (rule DecryptDataKey_cache_keys_decoded)
  then have i1: "cache_keys_decoded world_cached_key"
    unfolding first snd_conv .
  have m1: "current_key_match world_cached_key ''QUJD'' = None"
    by (simp add: current_key_match_def world_cached_key_def EncodeToString_0BC)
  have c1: "map_of (decryptionCache world_cached_key) ''QUJD'' = Some ?c"
    by (simp add: world_cached_key_def)
  have x1: "CachedKey.ExpiresAt ?c < time_Now ?e (ticks world_cached_key)"
    by (simp add: world_cached_key_def env_outage_kms_def)
  have down: "kms_Decrypt ?e (length (client world_cached_key)) ?blob ?arn
      = Inl (KmsError ''unavailable'')"
    by (simp add: world_cached_key_def env_outage_kms_def)
  note inst1 = DecryptDataKey_expired_entry [OF i1 m1 c1 x1, of ?arn]
  from inst1 [THEN conjunct1] obtain blob where
    b: "DecodeString ''QUJD'' = Inr blob"
    and fail: "\<forall>err. kms_Decrypt ?e (length (client world_cached_key)) blob ?arn = Inl err \<longrightarrow>
         DecryptDataKey ?e ''QUJD'' ?arn world_cached_key =
           (Inl (KeyDecryptionFailed err),
            world_cached_key\<lparr>client := client world_cached_key @ [DecryptCall blob ?arn]\<rparr>) \<and>
         map_of (decryptionCache ?w2) ''QUJD'' = Some ?c"
    by (elim exE conjE)
  from b have blob: "blob = ?blob"
    unfolding DecodeString_QUJD by simp
  note failed = fail [unfolded blob, rule_format, OF down]
  have second: "DecryptDataKey ?e ''QUJD'' ?arn world_cached_key
      = (Inl (KeyDecryptionFailed (KmsError ''unavailable'')), world_after_outage)"
    unfolding world_after_outage_def by (rule failed [THEN conjunct1])
  note kept = failed [THEN conjunct2]
  have w2: "?w2 = world_after_outage"
    unfolding second snd_conv ..
  have log: "client world_after_outage = client world_cached_key @ [DecryptCall ?blob ?arn]"
    by (simp add: world_after_outage_def)
  from kept have c2: "map_of (decryptionCache world_after_outage) ''QUJD'' = Some ?c"
    unfolding w2 .
  have x2: "CachedKey.ExpiresAt ?c < time_Now ?e (ticks world_after_outage)"
    by (simp add: world_after_outage_def world_cached_key_def env_outage_kms_def)
  from inst1 [THEN conjunct2, THEN conjunct2, THEN conjunct2, THEN conjunct1, unfolded w2,
      rule_format, OF conjI [OF c2 x2]]
  have swept: "map_of (decryptionCache (CleanupCache ?e world_after_outage)) ''QUJD'' = None" .
  from inst1 [THEN conjunct2, THEN conjunct2, THEN conjunct2, THEN conjunct2, unfolded w2]
  have i2: "cache_keys_decoded world_after_outage" .
  have m2: "current_key_match world_after_outage ''QUJD'' = None"
    by (simp add: current_key_match_def world_after_outage_def world_cached_key_def
        EncodeToString_0BC)
  have up: "kms_Decrypt ?e (length (client world_after_outage)) ?blob ?arn = Inr (replicate 32 3)"
    by (simp add: world_after_outage_def world_cached_key_def env_outage_kms_def)
  note inst2 = DecryptDataKey_expired_entry [OF i2 m2 c2 x2, of ?arn]
  from inst2 [THEN conjunct1] obtain blob' where
    b': "DecodeString ''QUJD'' = Inr blob'"
    and ok: "\<forall>Plaintext. kms_Decrypt ?e (length (client world_after_outage)) blob' ?arn = Inr Plaintext \<longrightarrow>
         fst (DecryptDataKey ?e ''QUJD'' ?arn world_after_outage) = Inr (length (heap world_after_outage)) \<and>
         load (heap ?w3) (length (heap world_after_outage)) = Plaintext \<and>
         map_of (decryptionCache ?w3) ''QUJD'' =
           Some \<lparr>Key = length (heap world_after_outage),
                 ExpiresAt = time_Now ?e (ticks world_after_outage) + cacheTTL world_after_outage\<rparr>"
    by (elim exE conjE)
  from b' have blob': "blob' = ?blob"
    unfolding DecodeString_QUJD by simp
  have n: "length (heap world_after_outage) = 2"
    "time_Now ?e (ticks world_after_outage) + cacheTTL world_after_outage = 386400000000000"
    by (simp_all add: world_after_outage_def world_cached_key_def env_outage_kms_def)
  note third = ok [unfolded blob', rule_format, OF up, unfolded n]
  from x1 have x1': "86400000000002 < time_Now ?e (ticks world_cached_key)" by simp
  from x2 have x2': "86400000000002 < time_Now ?e (ticks world_after_outage)" by simp
  show ?thesis
    using start first i1 m1 c1 x1' second log c2 swept i2 m2 x2'
      third [THEN conjunct1] third [THEN conjunct2, THEN conjunct1]
      third [THEN conjunct2, THEN conjunct2]
    by (intro conjI)
qed


section \<open>The codec server: encode and decode\<close>

lemma rotateDataKeyLocked_keyID: "keyID (snd (rotateDataKeyLocked e w)) = keyID w"
  by (simp add: rotateDataKeyLocked_cases install_key_def split: sum.splits prod.splits)

lemma rotateDataKeyLocked_keyID':
  "rotateDataKeyLocked e w = (r, w') \<Longrightarrow> keyID w' = keyID w"
  using rotateDataKeyLocked_keyID [of e w] by simp

lemma GetCurrentDataKey_keyID: "keyID (snd (GetCurrentDataKey e w)) = keyID w"
  by (auto simp add: GetCurrentDataKey_def rotation_needed_def time_now_def Let_def
      split: option.splits prod.splits bool.splits dest: rotateDataKeyLocked_keyID')

lemma GetCurrentDataKey_returns_current:
  "GetCurrentDataKey e w = (Inr currentKey, w1) \<Longrightarrow> currentDataKey w1 = currentKey"
  by (auto simp add: GetCurrentDataKey_def rotation_needed_def time_now_def Let_def
      split: option.splits prod.splits bool.splits)

lemma encode_payload_Inr:
  assumes "encode_payload e p w = (Inr q, w')"
  shows "Metadata q = [''encoding'' \<mapsto> ''binary/encrypted'']"
    and "KMSKeyID q = keyID w" and "keyID w' = keyID w"
    and "Algorithm q = ''AES-256-GCM''"
    and "\<exists>ck. currentDataKey w' = Some ck \<and> EncryptedDataKey q = EncryptedKey ck"
proof -
  obtain r w1 where g: "GetCurrentDataKey e w = (r, w1)" by (cases "GetCurrentDataKey e w")
  with assms obtain ck where r: "r = Inr (Some ck)"
    by (cases r; cases "projr r") (auto simp add: encode_payload_def Let_def)
  from g r have cur: "currentDataKey w1 = Some ck"
    by (simp add: GetCurrentDataKey_returns_current)
  from g have kid: "keyID w1 = keyID w"
    using GetCurrentDataKey_keyID [of e w] by simp
  from assms g r obtain c where q: "q = \<lparr>Metadata = [''encoding'' \<mapsto> ''binary/encrypted''],
        Data = c, KMSKeyID = keyID w1, EncryptedDataKey = EncryptedKey ck,
        Algorithm = ''AES-256-GCM''\<rparr>"
    and w': "w' = w1\<lparr>encrypts := Suc (encrypts w1)\<rparr>"
    by (auto simp add: encode_payload_def Let_def split: sum.splits)
  show "Metadata q = [''encoding'' \<mapsto> ''binary/encrypted'']" by (simp add: q)
  show "KMSKeyID q = keyID w" by (simp add: q kid)
  show "keyID w' = keyID w" by (simp add: w' kid)
  show "Algorithm q = ''AES-256-GCM''" by (simp add: q)
  show "\<exists>ck. currentDataKey w' = Some ck \<and> EncryptedDataKey q = EncryptedKey ck"
    by (simp add: q w' cur)
qed

lemma decode_payload_Inr:
  assumes "decode_payload e p w = (Inr q, w')"
  shows "Metadata q = [''encoding'' \<mapsto> ''json/plain'']"
    and "KMSKeyID q = []" and "EncryptedDataKey q = []" and "Algorithm q = []"
  using assms
  by (auto simp add: decode_payload_def split: if_splits prod.splits sum.splits)

lemma encode_loop_invariant:
  assumes step: "\<And>p w0 q w1. I w0 \<Longrightarrow> encode_payload e p w0 = (Inr q, w1) \<Longrightarrow> P q \<and> I w1"
    and "I w" and "\<forall>q\<in>set acc. P q" and "encode_loop e ps acc w = (Inr resp, w')"
  shows "\<forall>q\<in>set resp. P q"
  using assms(2-)
proof (induction ps arbitrary: acc w)
  case Nil
  then show ?case by simp
next
  case (Cons p ps)
  show ?case
  proof (cases "Metadata p ''encoding'' = None \<or> Metadata p ''encoding'' = Some ''json/plain''")
    case True
    with Cons.prems(3) obtain q w1 where enc: "encode_payload e p w = (Inr q, w1)"
      and rest: "encode_loop e ps (acc @ [q]) w1 = (Inr resp, w')"
      by (auto split: prod.splits sum.splits)
    from step [OF Cons.prems(1) enc] Cons.prems(2) have "I w1" "\<forall>q\<in>set (acc @ [q]). P q"
      by auto
    then show ?thesis using rest by (rule Cons.IH)
  next
    case False
    with Cons.prems(3) have "encode_loop e ps acc w = (Inr resp, w')" by simp
    with Cons.prems(1,2) show ?thesis by (rule Cons.IH)
  qed
qed

lemma decode_loop_append:
  "decode_loop e (xs @ ys) acc w =
     (case decode_loop e xs acc w of
        (Inl err, w1) \<Rightarrow> (Inl err, w1)
      | (Inr acc', w1) \<Rightarrow> decode_loop e ys acc' w1)"
proof (induction xs arbitrary: acc w)
  case Nil
  show ?case by simp
next
  case (Cons p xs)
  show ?case
  proof (cases "Metadata p ''encoding'' \<noteq> Some ''binary/encrypted''")
    case True
    then show ?thesis by (simp add: Cons.IH)
  next
    case False
    then show ?thesis
      by (cases "decode_payload e p w") (simp add: Cons.IH split: sum.splits)
  qed
qed

lemma decode_loop_missing_key:
  assumes "Metadata bad ''encoding'' = Some ''binary/encrypted''" and "EncryptedDataKey bad = []"
  shows "decode_loop e (bad # rest) acc w = (Inl MissingKeyMaterial, w)"
  using assms by (simp add: decode_payload_def)

lemma decode_loop_passthrough:
  "\<forall>p\<in>set ps. Metadata p ''encoding'' \<noteq> Some ''binary/encrypted'' \<Longrightarrow>
   decode_loop e ps acc w = (Inr (acc @ ps), w)"
  by (induction ps arbitrary: acc) simp_all

lemma decode_loop_rel:
  assumes pass: "\<And>p. Metadata p ''encoding'' \<noteq> Some ''binary/encrypted'' \<Longrightarrow> R p p"
    and dec: "\<And>p w0 q w1. Metadata p ''encoding'' = Some ''binary/encrypted'' \<Longrightarrow>
        decode_payload e p w0 = (Inr q, w1) \<Longrightarrow> R p q"
    and "decode_loop e ps acc w = (Inr resp, w')"
  shows "\<exists>out. resp = acc @ out \<and> list_all2 R ps out"
  using assms(3)
proof (induction ps arbitrary: acc w)
  case Nil
  then show ?case by simp
next
  case (Cons p ps)
  show ?case
  proof (cases "Metadata p ''encoding'' \<noteq> Some ''binary/encrypted''")
    case True
    with Cons.prems have "decode_loop e ps (acc @ [p]) w = (Inr resp, w')" by simp
    from Cons.IH [OF this] obtain out where "resp = (acc @ [p]) @ out" "list_all2 R ps out"
      by blast
    with pass [OF True] have "resp = acc @ (p # out) \<and> list_all2 R (p # ps) (p # out)"
      by simp
    then show ?thesis by blast
  next
    case False
    with Cons.prems obtain q w1 where d: "decode_payload e p w = (Inr q, w1)"
      and rest: "decode_loop e ps (acc @ [q]) w1 = (Inr resp, w')"
      by (auto split: prod.splits sum.splits)
    from Cons.IH [OF rest] obtain out where "resp = (acc @ [q]) @ out" "list_all2 R ps out"
      by blast
    moreover from False d have "R p q" by (simp add: dec)
    ultimately have "resp = acc @ (q # out) \<and> list_all2 R (p # ps) (q # out)"
      by simp
    then show ?thesis by blast
  qed
qed

lemma handleEncode_Inr:
  assumes "handleEncode e r w = (Inr resp, w')"
  shows "\<exists>req. Method r = ''POST'' \<and> Body r = Some req \<and>
    encode_loop e (CodecRequest.Payloads req) [] w = (Inr (CodecResponse.Payloads resp), w')"
  using assms
  by (auto simp add: handleEncode_def split: if_splits option.splits prod.splits sum.splits)

lemma handleDecode_Inr:
  assumes "handleDecode e r w = (Inr resp, w')"
  shows "\<exists>req. Method r = ''POST'' \<and> Body r = Some req \<and>
    decode_loop e (CodecRequest.Payloads req) [] w = (Inr (CodecResponse.Payloads resp), w')"
  using assms
  by (auto simp add: handleDecode_def split: if_splits option.splits prod.splits sum.splits)

lemma NewKMSManager_empty_ids:
  "NewKMSManager env_empty_kms [] 86400000000000 3600000000000 = Inr world_empty_ids"
  by (simp add: NewKMSManager_def rotateDataKey_def rotateDataKeyLocked_cases install_key_def
      env_empty_kms_def world_empty_ids_def EncodeToString_def)

lemma EncodeToString_id123:
  "EncodeToString [0x7b, 0x22, 0x69, 0x64, 0x22, 0x3a, 0x31, 0x32, 0x33, 0x7d] = ''eyJpZCI6MTIzfQ==''"
  by (simp add: EncodeToString_def enc_char_def encodeStd_def padChar_def)

lemma DecodeString_id123:
  "DecodeString ''eyJpZCI6MTIzfQ=='' = Inr [0x7b, 0x22, 0x69, 0x64, 0x22, 0x3a, 0x31, 0x32, 0x33, 0x7d]"
  using DecodeString_EncodeToString [of "[0x7b, 0x22, 0x69, 0x64, 0x22, 0x3a, 0x31, 0x32, 0x33, 0x7d]"]
  by (simp only: EncodeToString_id123)

lemma DecodeString_bang: "DecodeString ''!'' = Inl CorruptInputError"
  by (simp add: DecodeString_def decodeMap_def encodeStd_def is_newline_def padChar_def)

text \<open>Encoding one payload under a current key that has not expired.\<close>

lemma encode_payload_valid_key:
  assumes "currentDataKey w = Some ck"
    and "\<not> CurrentDataKey.ExpiresAt ck < time_Now e (ticks w)"
    and "Data p \<noteq> []" and "DecodeString (Data p) = Inr decoded"
    and "EncryptWithDataKey decoded (load (heap w) (PlaintextKey ck)) (rand_Reader e (encrypts w))
           = Inr encryptedData"
  shows "encode_payload e p w =
    (Inr \<lparr>Metadata = [''encoding'' \<mapsto> ''binary/encrypted''], Data = encryptedData,
           KMSKeyID = keyID w, EncryptedDataKey = EncryptedKey ck, Algorithm = ''AES-256-GCM''\<rparr>,
     w\<lparr>ticks := Suc (ticks w), encrypts := Suc (encrypts w)\<rparr>)"
  using assms
  by (simp add: encode_payload_def GetCurrentDataKey_valid [OF assms(1,2)] Let_def)

lemma handleEncode_single:
  assumes "Metadata p ''encoding'' = Some ''json/plain''"
    and "encode_payload e p w = (Inr q, w1)"
  shows "handleEncode e (post_request [p]) w = (Inr \<lparr>Payloads = [q]\<rparr>, w1)"
  using assms by (simp add: handleEncode_def post_request_def)

lemma encode_payload_plain:
  assumes "currentDataKey w = Some ck"
    and "\<not> CurrentDataKey.ExpiresAt ck < time_Now e (ticks w)"
    and "length (load (heap w) (PlaintextKey ck)) = 32"
    and "12 \<le> length (rand_Reader e (encrypts w))"
  obtains encryptedData where
    "EncryptWithDataKey [0x7b, 0x22, 0x69, 0x64, 0x22, 0x3a, 0x31, 0x32, 0x33, 0x7d]
       (load (heap w) (PlaintextKey ck)) (rand_Reader e (encrypts w)) = Inr encryptedData"
    and "encode_payload e payload_plain w =
      (Inr \<lparr>Metadata = [''encoding'' \<mapsto> ''binary/encrypted''], Data = encryptedData,
             KMSKeyID = keyID w, EncryptedDataKey = EncryptedKey ck, Algorithm = ''AES-256-GCM''\<rparr>,
       w\<lparr>ticks := Suc (ticks w), encrypts := Suc (encrypts w)\<rparr>)"
proof -
  from assms(3,4) obtain c where
    c: "EncryptWithDataKey [0x7b, 0x22, 0x69, 0x64, 0x22, 0x3a, 0x31, 0x32, 0x33, 0x7d]
       (load (heap w) (PlaintextKey ck)) (rand_Reader e (encrypts w)) = Inr c"
    using EncryptWithDataKey_succeeds
      [of "load (heap w) (PlaintextKey ck)" "rand_Reader e (encrypts w)"
        "[0x7b, 0x22, 0x69, 0x64, 0x22, 0x3a, 0x31, 0x32, 0x33, 0x7d]"]
    by auto
  have d: "Data payload_plain \<noteq> []"
    and dd: "DecodeString (Data payload_plain)
      = Inr [0x7b, 0x22, 0x69, 0x64, 0x22, 0x3a, 0x31, 0x32, 0x33, 0x7d]"
    by (simp_all add: payload_plain_def DecodeString_id123)
  from encode_payload_valid_key [OF assms(1,2) d dd c] c that show thesis
    by blast
qed

lemma decode_payload_current_key:
  assumes "EncryptedDataKey p \<noteq> []"
    and "current_key_match w (EncryptedDataKey p) = Some a"
    and "DecryptWithDataKey (Data p) (load (heap w) a) = Inr decryptedData"
  shows "decode_payload e p w =
    (Inr \<lparr>Metadata = [''encoding'' \<mapsto> ''json/plain''], Data = EncodeToString decryptedData,
           KMSKeyID = [], EncryptedDataKey = [], Algorithm = []\<rparr>, w)"
  using assms by (simp add: decode_payload_def DecryptDataKey_current)

lemma handleDecode_single:
  assumes "Metadata p ''encoding'' = Some ''binary/encrypted''"
    and "decode_payload e p w = (Inr q, w1)"
  shows "handleDecode e (post_request [p]) w = (Inr \<lparr>Payloads = [q]\<rparr>, w1)"
  using assms by (simp add: handleDecode_def post_request_def)

text \<open>The first payload at which the decode loop fails, and what its failure is.\<close>

lemma decode_loop_first_failure:
  "decode_loop e ps acc w = (Inl err, w') \<Longrightarrow>
   \<exists>ok f later resp w1. ps = ok @ f # later \<and> decode_loop e ok acc w = (Inr resp, w1) \<and>
     Metadata f ''encoding'' = Some ''binary/encrypted'' \<and> decode_payload e f w1 = (Inl err, w')"
proof (induction ps arbitrary: acc w)
  case Nil
  then show ?case by simp
next
  case (Cons p ps)
  show ?case
  proof (cases "Metadata p ''encoding'' \<noteq> Some ''binary/encrypted''")
    case True
    with Cons.prems have "decode_loop e ps (acc @ [p]) w = (Inl err, w')" by simp
    from Cons.IH [OF this] obtain ok f later resp w1 where
      "ps = ok @ f # later" "decode_loop e ok (acc @ [p]) w = (Inr resp, w1)"
      "Metadata f ''encoding'' = Some ''binary/encrypted''" "decode_payload e f w1 = (Inl err, w')"
      by blast
    with True have "p # ps = (p # ok) @ f # later \<and> decode_loop e (p # ok) acc w = (Inr resp, w1) \<and>
      Metadata f ''encoding'' = Some ''binary/encrypted'' \<and> decode_payload e f w1 = (Inl err, w')"
      by simp
    then show ?thesis by blast
  next
    case False
    obtain res w0 where d: "decode_payload e p w = (res, w0)" by (cases "decode_payload e p w")
    show ?thesis
    proof (cases res)
      case (Inl err0)
      with False d Cons.prems have "err0 = err" "w0 = w'" by simp_all
      with False d Inl have "p # ps = [] @ p # ps \<and> decode_loop e [] acc w = (Inr acc, w) \<and>
        Metadata p ''encoding'' = Some ''binary/encrypted'' \<and> decode_payload e p w = (Inl err, w')"
        by simp
      then show ?thesis by blast
    next
      case (Inr q)
      with False d Cons.prems have "decode_loop e ps (acc @ [q]) w0 = (Inl err, w')" by simp
      from Cons.IH [OF this] obtain ok f later resp w1 where
        "ps = ok @ f # later" "decode_loop e ok (acc @ [q]) w0 = (Inr resp, w1)"
        "Metadata f ''encoding'' = Some ''binary/encrypted''" "decode_payload e f w1 = (Inl err, w')"
        by blast
      with False d Inr have "p # ps = (p # ok) @ f # later \<and>
        decode_loop e (p # ok) acc w = (Inr resp, w1) \<and>
        Metadata f ''encoding'' = Some ''binary/encrypted'' \<and> decode_payload e f w1 = (Inl err, w')"
        by simp
      then show ?thesis by blast
    qed
  qed
qed

lemma decode_payload_Inl:
  assumes "decode_payload e p w = (Inl err, w')"
  shows "EncryptedDataKey p = [] \<and> err = MissingKeyMaterial \<and> w' = w \<or>
    EncryptedDataKey p \<noteq> [] \<and>
      (\<exists>x. DecryptDataKey e (EncryptedDataKey p) (KMSKeyID p) w = (Inl x, w') \<and>
           err = KeyResolutionFailed x) \<or>
    EncryptedDataKey p \<noteq> [] \<and>
      (\<exists>a y. DecryptDataKey e (EncryptedDataKey p) (KMSKeyID p) w = (Inr a, w') \<and>
             DecryptWithDataKey (Data p) (load (heap w') a) = Inl y \<and>
             err = DataDecryptionFailed y)"
  using assms
  by (auto simp add: decode_payload_def split: if_splits prod.splits sum.splits)

lemma decode_loop_failing_payload:
  assumes "decode_loop e ok acc w = (Inr resp, w1)"
    and "Metadata f ''encoding'' = Some ''binary/encrypted''"
    and "decode_payload e f w1 = (Inl err, w2)"
  shows "decode_loop e (ok @ f # later) acc w = (Inl err, w2)"
  using assms by (simp add: decode_loop_append)

lemma DecryptDataKey_bang:
  "DecryptDataKey env_fresh_kms ''!'' ''arn:aws:kms:key/1'' world_started
     = (Inl EncryptedKeyDecodeFailed, world_started)"
proof -
  have m: "current_key_match world_started ''!'' = None"
    by (simp add: current_key_match_def world_started_def EncodeToString_0BC)
  have c: "map_of (decryptionCache world_started) (''!'' @ '':'' @ ''arn:aws:kms:key/1'') = None"
    by (simp add: world_started_def)
  show ?thesis
    unfolding DecryptDataKey_miss [OF m c]
    by (simp add: decrypt_with_KMS_def DecodeString_bang)
qed

text \<open>
  The states that the encode loop goes through, one for each plain payload; and the
  requests that the manager sends to the KMS meanwhile.
\<close>

lemma encode_loop_run:
  assumes "encode_loop e ps acc w = (Inr resp, w')"
  shows "\<exists>out ss. resp = acc @ out \<and>
    length out = length (filter (\<lambda>p. Metadata p ''encoding'' = None \<or>
                                       Metadata p ''encoding'' = Some ''json/plain'') ps) \<and>
    length ss = Suc (length out) \<and> ss ! 0 = w \<and> ss ! length out = w' \<and>
    (\<forall>i<length out.
       encode_payload e
         (filter (\<lambda>p. Metadata p ''encoding'' = None \<or>
                       Metadata p ''encoding'' = Some ''json/plain'') ps ! i) (ss ! i)
       = (Inr (out ! i), ss ! Suc i))"
  using assms
proof (induction ps arbitrary: acc w)
  case Nil
  then have "resp = acc @ [] \<and> length [w] = Suc (length ([] :: PayloadData list)) \<and>
      [w] ! 0 = w \<and> [w] ! length ([] :: PayloadData list) = w'"
    by simp
  then show ?case
    by (intro exI [of _ "[]"] exI [of _ "[w]"]) simp
next
  case (Cons p ps)
  let ?plain = "\<lambda>p. Metadata p ''encoding'' = None \<or> Metadata p ''encoding'' = Some ''json/plain''"
  show ?case
  proof (cases "?plain p")
    case True
    with Cons.prems obtain q w1 where enc: "encode_payload e p w = (Inr q, w1)"
      and rest: "encode_loop e ps (acc @ [q]) w1 = (Inr resp, w')"
      by (auto split: prod.splits sum.splits)
    from Cons.IH [OF rest] obtain out ss where
      r: "resp = (acc @ [q]) @ out" and l: "length out = length (filter ?plain ps)"
      and s: "length ss = Suc (length out)" and s0: "ss ! 0 = w1" and sn: "ss ! length out = w'"
      and steps: "\<forall>i<length out.
        encode_payload e (filter ?plain ps ! i) (ss ! i) = (Inr (out ! i), ss ! Suc i)"
      by blast
    have "encode_payload e (filter ?plain (p # ps) ! i) ((w # ss) ! i)
        = (Inr ((q # out) ! i), (w # ss) ! Suc i)" if "i < length (q # out)" for i
    proof (cases i)
      case 0
      with True enc s0 show ?thesis by simp
    next
      case (Suc j)
      with that have "j < length out" by simp
      with steps have "encode_payload e (filter ?plain ps ! j) (ss ! j) = (Inr (out ! j), ss ! Suc j)"
        by simp
      with True Suc show ?thesis by simp
    qed
    with True r l s sn have "resp = acc @ (q # out) \<and>
        length (q # out) = length (filter ?plain (p # ps)) \<and>
        length (w # ss) = Suc (length (q # out)) \<and> (w # ss) ! 0 = w \<and>
        (w # ss) ! length (q # out) = w' \<and>
        (\<forall>i<length (q # out).
           encode_payload e (filter ?plain (p # ps) ! i) ((w # ss) ! i)
           = (Inr ((q # out) ! i), (w # ss) ! Suc i))"
      by simp
    then show ?thesis by blast
  next
    case False
    then have same: "filter ?plain (p # ps) = filter ?plain ps"
      by simp
    from False Cons.prems have "encode_loop e ps acc w = (Inr resp, w')" by auto
    then show ?thesis
      unfolding same by (rule Cons.IH)
  qed
qed

lemma encode_payload_key:
  assumes "encode_payload e p w = (Inr q, w')"
  shows "\<exists>ck. fst (GetCurrentDataKey e w) = Inr (Some ck) \<and> currentDataKey w' = Some ck \<and>
    EncryptedDataKey q = EncryptedKey ck"
proof -
  obtain r w1 where g: "GetCurrentDataKey e w = (r, w1)" by (cases "GetCurrentDataKey e w")
  with assms obtain ck where r: "r = Inr (Some ck)"
    by (cases r; cases "projr r") (auto simp add: encode_payload_def Let_def)
  from g r have cur: "currentDataKey w1 = Some ck"
    by (simp add: GetCurrentDataKey_returns_current)
  from assms g r have "EncryptedDataKey q = EncryptedKey ck"
    and "w' = w1\<lparr>encrypts := Suc (encrypts w1)\<rparr>"
    by (auto simp add: encode_payload_def Let_def split: sum.splits)
  with g r cur show ?thesis by simp
qed

lemma GetCurrentDataKey_client:
  "length (client w) \<le> length (client (snd (GetCurrentDataKey e w))) \<and>
   (length (client (snd (GetCurrentDataKey e w))) = length (client w) \<longrightarrow>
      currentDataKey (snd (GetCurrentDataKey e w)) = currentDataKey w)"
  by (auto simp add: GetCurrentDataKey_def rotation_needed_def time_now_def Let_def
      rotateDataKeyLocked_cases install_key_def
      split: option.splits prod.splits bool.splits sum.splits)

lemma encode_payload_client:
  "length (client w) \<le> length (client (snd (encode_payload e p w))) \<and>
   (length (client (snd (encode_payload e p w))) = length (client w) \<longrightarrow>
      currentDataKey (snd (encode_payload e p w)) = currentDataKey w)"
proof -
  have "client (snd (encode_payload e p w)) = client (snd (GetCurrentDataKey e w)) \<and>
      currentDataKey (snd (encode_payload e p w)) = currentDataKey (snd (GetCurrentDataKey e w))"
    by (simp add: encode_payload_def Let_def split: prod.splits sum.splits option.splits)
  with GetCurrentDataKey_client [of w e] show ?thesis by simp
qed

lemma encode_loop_client:
  "length (client w) \<le> length (client (snd (encode_loop e ps acc w)))"
proof (induction ps arbitrary: acc w)
  case Nil
  show ?case by simp
next
  case (Cons p ps)
  show ?case
  proof (cases "Metadata p ''encoding'' = None \<or> Metadata p ''encoding'' = Some ''json/plain''")
    case True
    obtain res w1 where enc: "encode_payload e p w = (res, w1)"
      by (cases "encode_payload e p w")
    with encode_payload_client [of w e p] have le: "length (client w) \<le> length (client w1)"
      by simp
    show ?thesis
    proof (cases res)
      case (Inl err)
      with True enc le show ?thesis by simp
    next
      case (Inr q)
      with True enc have "encode_loop e (p # ps) acc w = encode_loop e ps (acc @ [q]) w1"
        by simp
      with le Cons.IH [of w1 "acc @ [q]"] show ?thesis by simp
    qed
  next
    case False
    then have "encode_loop e (p # ps) acc w = encode_loop e ps acc w" by auto
    with Cons.IH [of w acc] show ?thesis by simp
  qed
qed

lemma encode_loop_no_request:
  assumes "encode_loop e ps acc w = (Inr resp, w')"
    and "length (client w') = length (client w)"
  shows "\<exists>out. resp = acc @ out \<and> currentDataKey w' = currentDataKey w \<and>
    (\<forall>q\<in>set out. \<exists>ck. currentDataKey w = Some ck \<and> EncryptedDataKey q = EncryptedKey ck)"
  using assms
proof (induction ps arbitrary: acc w)
  case Nil
  then show ?case by simp
next
  case (Cons p ps)
  show ?case
  proof (cases "Metadata p ''encoding'' = None \<or> Metadata p ''encoding'' = Some ''json/plain''")
    case True
    with Cons.prems(1) obtain q w1 where enc: "encode_payload e p w = (Inr q, w1)"
      and rest: "encode_loop e ps (acc @ [q]) w1 = (Inr resp, w')"
      by (auto split: prod.splits sum.splits)
    from encode_payload_client [of w e p] enc have le1: "length (client w) \<le> length (client w1)"
      and same1: "length (client w1) = length (client w) \<Longrightarrow> currentDataKey w1 = currentDataKey w"
      by simp_all
    from encode_loop_client [of w1 e ps "acc @ [q]"] rest
    have le2: "length (client w1) \<le> length (client w')"
      by simp
    from le1 le2 Cons.prems(2) have eq1: "length (client w1) = length (client w)"
      and eq2: "length (client w') = length (client w1)"
      by simp_all
    from same1 [OF eq1] have cur: "currentDataKey w1 = currentDataKey w" .
    from encode_payload_key [OF enc] obtain ck where
      "currentDataKey w1 = Some ck" "EncryptedDataKey q = EncryptedKey ck"
      by blast
    with cur have q: "\<exists>ck. currentDataKey w = Some ck \<and> EncryptedDataKey q = EncryptedKey ck"
      by metis
    from Cons.IH [OF rest eq2] obtain out where
      "resp = (acc @ [q]) @ out" "currentDataKey w' = currentDataKey w1"
      "\<forall>q\<in>set out. \<exists>ck. currentDataKey w1 = Some ck \<and> EncryptedDataKey q = EncryptedKey ck"
      by blast
    with cur q have "resp = acc @ (q # out) \<and> currentDataKey w' = currentDataKey w \<and>
      (\<forall>q\<in>set (q # out). \<exists>ck. currentDataKey w = Some ck \<and> EncryptedDataKey q = EncryptedKey ck)"
      by simp
    then show ?thesis by blast
  next
    case False
    with Cons.prems(1) have "encode_loop e ps acc w = (Inr resp, w')" by auto
    then show ?thesis using Cons.prems(2) by (rule Cons.IH)
  qed
qed

text \<open>
  Claim C3. A payload whose \<open>encoding\<close> is present and differs from \<open>json/plain\<close> should
  appear in the response unchanged. The loop of \<open>handleEncode\<close> has no branch for such a
  payload: it is skipped and the response batch does not contain it. Here a request with
  one payload of encoding \<open>binary/protobuf\<close> is answered, in every environment and state,
  with an empty batch.
\<close>

theorem handleEncode_drops_other_encoding:
  "Metadata payload_other_encoding ''encoding'' = Some ''binary/protobuf'' \<and>
   handleEncode e (post_request [payload_other_encoding]) w = (Inr \<lparr>Payloads = []\<rparr>, w)"
  by (simp add: handleEncode_def post_request_def payload_other_encoding_def)

text \<open>
  Claim C4, as stated, fails: the payloads are processed in order and the first failure
  ends the request, so a batch whose payload without an encrypted data key comes after
  another failing payload is answered with the other error. Here the first payload of the
  batch has an encrypted data key that is not base64, or that of an older data key while
  the KMS is unavailable; the request fails with \<open>KeyResolutionFailed\<close>, not with
  \<open>MissingKeyMaterial\<close>.
\<close>

theorem handleDecode_other_error_counterexample:
  "Metadata payload_missing_key ''encoding'' = Some ''binary/encrypted'' \<and>
   EncryptedDataKey payload_missing_key = [] \<and>
   handleDecode env_fresh_kms (post_request [payload_bad_key, payload_missing_key]) world_started
     = (Inl (KeyResolutionFailed EncryptedKeyDecodeFailed), world_started) \<and>
   fst (handleDecode env_kms_down (post_request [payload_old_key, payload_missing_key]) world_started)
     = Inl (KeyResolutionFailed (KeyDecryptionFailed (KmsError ''unavailable'')))"
proof -
  have m: "current_key_match world_started ''!'' = None"
    by (simp add: current_key_match_def world_started_def EncodeToString_0BC)
  have c: "map_of (decryptionCache world_started) (''!'' @ '':'' @ ''arn:aws:kms:key/1'') = None"
    by (simp add: world_started_def)
  have "DecryptDataKey env_fresh_kms ''!'' ''arn:aws:kms:key/1'' world_started
      = (Inl EncryptedKeyDecodeFailed, world_started)"
    unfolding DecryptDataKey_miss [OF m c]
    by (simp add: decrypt_with_KMS_def DecodeString_bang)
  then have first: "handleDecode env_fresh_kms (post_request [payload_bad_key, payload_missing_key])
      world_started = (Inl (KeyResolutionFailed EncryptedKeyDecodeFailed), world_started)"
    by (simp add: handleDecode_def post_request_def payload_bad_key_def payload_missing_key_def
        decode_payload_def)
  have c': "map_of (decryptionCache world_started) (''QUJD'' @ '':'' @ ''arn:aws:kms:key/1'') = None"
    by (simp add: world_started_def)
  have down: "kms_Decrypt env_kms_down (length (client world_started)) [0x41, 0x42, 0x43]
      ''arn:aws:kms:key/1'' = Inl (KmsError ''unavailable'')"
    by (simp add: env_kms_down_def)
  have "DecryptDataKey env_kms_down ''QUJD'' ''arn:aws:kms:key/1'' world_started
      = (Inl (KeyDecryptionFailed (KmsError ''unavailable'')),
         world_started\<lparr>client := client world_started @
           [DecryptCall [0x41, 0x42, 0x43] ''arn:aws:kms:key/1'']\<rparr>)"
    unfolding DecryptDataKey_miss [OF current_key_match_started c']
    by (rule decrypt_with_KMS_failure [OF DecodeString_QUJD down])
  then have second: "fst (handleDecode env_kms_down
      (post_request [payload_old_key, payload_missing_key]) world_started)
      = Inl (KeyResolutionFailed (KeyDecryptionFailed (KmsError ''unavailable'')))"
    by (simp add: handleDecode_def post_request_def payload_old_key_def payload_missing_key_def
        decode_payload_def)
  from first second show ?thesis
    by (simp add: payload_missing_key_def)
qed

text \<open>
  Claim C4, amended. A decode request with a payload whose encoding is
  \<open>binary/encrypted\<close> and whose encrypted data key is empty always fails, and a failed
  request returns no payload. The failure is \<open>MissingKeyMaterial\<close> when the payloads
  before that payload are processed without error, in particular when none of them is
  encrypted; otherwise it is the error of the first payload that fails:
  \<open>MissingKeyMaterial\<close> when that payload has no encrypted data key,
  \<open>KeyResolutionFailed\<close> with the error of \<open>DecryptDataKey\<close> when its data key is not
  resolved, \<open>DataDecryptionFailed\<close> with the error of \<open>DecryptWithDataKey\<close> when its data
  does not decrypt. One of the two cases holds.
\<close>

theorem handleDecode_missing_key:
  assumes "Method r = ''POST''" and "Body r = Some req"
    and "CodecRequest.Payloads req = pre @ bad # rest"
    and "Metadata bad ''encoding'' = Some ''binary/encrypted''"
    and "EncryptedDataKey bad = []"
  shows "(\<exists>err w'. handleDecode e r w = (Inl err, w')) \<and>
    (\<forall>response w1. decode_loop e pre [] w = (Inr response, w1) \<longrightarrow>
       handleDecode e r w = (Inl MissingKeyMaterial, w1)) \<and>
    ((\<forall>p\<in>set pre. Metadata p ''encoding'' \<noteq> Some ''binary/encrypted'') \<longrightarrow>
       handleDecode e r w = (Inl MissingKeyMaterial, w)) \<and>
    (\<forall>ok f later resp w1.
       pre = ok @ f # later \<and> decode_loop e ok [] w = (Inr resp, w1) \<and>
       Metadata f ''encoding'' = Some ''binary/encrypted'' \<longrightarrow>
         (EncryptedDataKey f = [] \<longrightarrow> handleDecode e r w = (Inl MissingKeyMaterial, w1)) \<and>
         (\<forall>x w2. EncryptedDataKey f \<noteq> [] \<and>
            DecryptDataKey e (EncryptedDataKey f) (KMSKeyID f) w1 = (Inl x, w2) \<longrightarrow>
            handleDecode e r w = (Inl (KeyResolutionFailed x), w2)) \<and>
         (\<forall>a y w2. EncryptedDataKey f \<noteq> [] \<and>
            DecryptDataKey e (EncryptedDataKey f) (KMSKeyID f) w1 = (Inr a, w2) \<and>
            DecryptWithDataKey (Data f) (load (heap w2) a) = Inl y \<longrightarrow>
            handleDecode e r w = (Inl (DataDecryptionFailed y), w2))) \<and>
    ((\<exists>response w1. decode_loop e pre [] w = (Inr response, w1) \<and>
        handleDecode e r w = (Inl MissingKeyMaterial, w1)) \<or>
     (\<exists>ok f later resp w1 err w2.
        pre = ok @ f # later \<and> decode_loop e ok [] w = (Inr resp, w1) \<and>
        Metadata f ''encoding'' = Some ''binary/encrypted'' \<and>
        handleDecode e r w = (Inl err, w2) \<and>
        (EncryptedDataKey f = [] \<and> err = MissingKeyMaterial \<and> w2 = w1 \<or>
         EncryptedDataKey f \<noteq> [] \<and>
           (\<exists>x. DecryptDataKey e (EncryptedDataKey f) (KMSKeyID f) w1 = (Inl x, w2) \<and>
                err = KeyResolutionFailed x) \<or>
         EncryptedDataKey f \<noteq> [] \<and>
           (\<exists>a y. DecryptDataKey e (EncryptedDataKey f) (KMSKeyID f) w1 = (Inr a, w2) \<and>
                  DecryptWithDataKey (Data f) (load (heap w2) a) = Inl y \<and>
                  err = DataDecryptionFailed y))))"
proof -
  have loop: "decode_loop e (CodecRequest.Payloads req) [] w =
      (case decode_loop e pre [] w of
         (Inl err, w1) \<Rightarrow> (Inl err, w1)
       | (Inr acc', w1) \<Rightarrow> (Inl MissingKeyMaterial, w1))"
    unfolding assms(3) decode_loop_append decode_loop_missing_key [OF assms(4,5)] ..
  have run: "handleDecode e r w =
      (case decode_loop e pre [] w of
         (Inl err, w1) \<Rightarrow> (Inl err, w1)
       | (Inr acc', w1) \<Rightarrow> (Inl MissingKeyMaterial, w1))"
    by (simp add: handleDecode_def assms(1,2) loop split: prod.splits sum.splits)
  have fails: "\<exists>err w'. handleDecode e r w = (Inl err, w')"
    unfolding run by (simp split: prod.splits sum.splits)
  have missing: "handleDecode e r w = (Inl MissingKeyMaterial, w1)"
    if "decode_loop e pre [] w = (Inr response, w1)" for response w1
    unfolding run using that by simp
  have plain: "handleDecode e r w = (Inl MissingKeyMaterial, w)"
    if "\<forall>p\<in>set pre. Metadata p ''encoding'' \<noteq> Some ''binary/encrypted''"
    unfolding run using decode_loop_passthrough [OF that, of e "[]" w] by simp
  have earlier: "handleDecode e r w = (Inl err, w2)"
    if "pre = ok @ f # later" and "decode_loop e ok [] w = (Inr resp, w1)"
      and "Metadata f ''encoding'' = Some ''binary/encrypted''"
      and "decode_payload e f w1 = (Inl err, w2)" for ok f later resp w1 err w2
    unfolding run that(1) decode_loop_failing_payload [OF that(2,3,4)] by simp
  have forward: "(EncryptedDataKey f = [] \<longrightarrow> handleDecode e r w = (Inl MissingKeyMaterial, w1)) \<and>
         (\<forall>x w2. EncryptedDataKey f \<noteq> [] \<and>
            DecryptDataKey e (EncryptedDataKey f) (KMSKeyID f) w1 = (Inl x, w2) \<longrightarrow>
            handleDecode e r w = (Inl (KeyResolutionFailed x), w2)) \<and>
         (\<forall>a y w2. EncryptedDataKey f \<noteq> [] \<and>
            DecryptDataKey e (EncryptedDataKey f) (KMSKeyID f) w1 = (Inr a, w2) \<and>
            DecryptWithDataKey (Data f) (load (heap w2) a) = Inl y \<longrightarrow>
            handleDecode e r w = (Inl (DataDecryptionFailed y), w2))"
    if h: "pre = ok @ f # later \<and> decode_loop e ok [] w = (Inr resp, w1) \<and>
       Metadata f ''encoding'' = Some ''binary/encrypted''" for ok f later resp w1
  proof (intro conjI allI impI)
    assume "EncryptedDataKey f = []"
    then have "decode_payload e f w1 = (Inl MissingKeyMaterial, w1)"
      by (simp add: decode_payload_def)
    with h show "handleDecode e r w = (Inl MissingKeyMaterial, w1)"
      using earlier by blast
  next
    fix x w2
    assume "EncryptedDataKey f \<noteq> [] \<and>
            DecryptDataKey e (EncryptedDataKey f) (KMSKeyID f) w1 = (Inl x, w2)"
    then have "decode_payload e f w1 = (Inl (KeyResolutionFailed x), w2)"
      by (simp add: decode_payload_def)
    with h show "handleDecode e r w = (Inl (KeyResolutionFailed x), w2)"
      using earlier by blast
  next
    fix a y w2
    assume "EncryptedDataKey f \<noteq> [] \<and>
            DecryptDataKey e (EncryptedDataKey f) (KMSKeyID f) w1 = (Inr a, w2) \<and>
            DecryptWithDataKey (Data f) (load (heap w2) a) = Inl y"
    then have "decode_payload e f w1 = (Inl (DataDecryptionFailed y), w2)"
      by (simp add: decode_payload_def)
    with h show "handleDecode e r w = (Inl (DataDecryptionFailed y), w2)"
      using earlier by blast
  qed
  have cases: "(\<exists>response w1. decode_loop e pre [] w = (Inr response, w1) \<and>
        handleDecode e r w = (Inl MissingKeyMaterial, w1)) \<or>
     (\<exists>ok f later resp w1 err w2.
        pre = ok @ f # later \<and> decode_loop e ok [] w = (Inr resp, w1) \<and>
        Metadata f ''encoding'' = Some ''binary/encrypted'' \<and>
        handleDecode e r w = (Inl err, w2) \<and>
        (EncryptedDataKey f = [] \<and> err = MissingKeyMaterial \<and> w2 = w1 \<or>
         EncryptedDataKey f \<noteq> [] \<and>
           (\<exists>x. DecryptDataKey e (EncryptedDataKey f) (KMSKeyID f) w1 = (Inl x, w2) \<and>
                err = KeyResolutionFailed x) \<or>
         EncryptedDataKey f \<noteq> [] \<and>
           (\<exists>a y. DecryptDataKey e (EncryptedDataKey f) (KMSKeyID f) w1 = (Inr a, w2) \<and>
                  DecryptWithDataKey (Data f) (load (heap w2) a) = Inl y \<and>
                  err = DataDecryptionFailed y)))"
  proof -
    obtain res w0 where d: "decode_loop e pre [] w = (res, w0)"
      by (cases "decode_loop e pre [] w")
    show ?thesis
    proof (cases res)
      case (Inr response)
      with d missing show ?thesis by blast
    next
      case (Inl err)
      with d have "decode_loop e pre [] w = (Inl err, w0)" by simp
      from decode_loop_first_failure [OF this] obtain ok f later resp w1 where
        first: "pre = ok @ f # later" "decode_loop e ok [] w = (Inr resp, w1)"
        "Metadata f ''encoding'' = Some ''binary/encrypted''"
        "decode_payload e f w1 = (Inl err, w0)"
        by blast
      from earlier [OF first] have "handleDecode e r w = (Inl err, w0)" .
      with first(1,2,3) decode_payload_Inl [OF first(4)] show ?thesis
        by blast
    qed
  qed
  from fails missing plain forward cases show ?thesis
    by blast
qed

theorem handleDecode_missing_key_witness:
  "Method (post_request [payload_plain, payload_missing_key, payload_plain]) = ''POST'' \<and>
   Body (post_request [payload_plain, payload_missing_key, payload_plain])
     = Some \<lparr>CodecRequest.Payloads = [payload_plain] @ payload_missing_key # [payload_plain]\<rparr> \<and>
   Metadata payload_missing_key ''encoding'' = Some ''binary/encrypted'' \<and>
   EncryptedDataKey payload_missing_key = [] \<and>
   handleDecode env_fresh_kms (post_request [payload_plain, payload_missing_key, payload_plain])
     world_started = (Inl MissingKeyMaterial, world_started) \<and>
   Method (post_request [payload_bad_key, payload_missing_key]) = ''POST'' \<and>
   Body (post_request [payload_bad_key, payload_missing_key])
     = Some \<lparr>CodecRequest.Payloads = [payload_bad_key] @ payload_missing_key # []\<rparr> \<and>
   decode_loop env_fresh_kms [] [] world_started = (Inr [], world_started) \<and>
   Metadata payload_bad_key ''encoding'' = Some ''binary/encrypted'' \<and>
   EncryptedDataKey payload_bad_key \<noteq> [] \<and>
   DecryptDataKey env_fresh_kms (EncryptedDataKey payload_bad_key) (KMSKeyID payload_bad_key)
     world_started = (Inl EncryptedKeyDecodeFailed, world_started) \<and>
   handleDecode env_fresh_kms (post_request [payload_bad_key, payload_missing_key]) world_started
     = (Inl (KeyResolutionFailed EncryptedKeyDecodeFailed), world_started)"
proof -
  let ?r = "post_request [payload_plain, payload_missing_key, payload_plain]"
  let ?req = "\<lparr>CodecRequest.Payloads = [payload_plain] @ payload_missing_key # [payload_plain]\<rparr>"
  have h1: "Method ?r = ''POST''" and h2: "Body ?r = Some ?req"
    by (simp_all add: post_request_def)
  have h3: "CodecRequest.Payloads ?req = [payload_plain] @ payload_missing_key # [payload_plain]"
    by simp
  have h4: "Metadata payload_missing_key ''encoding'' = Some ''binary/encrypted''"
    and h5: "EncryptedDataKey payload_missing_key = []"
    by (simp_all add: payload_missing_key_def)
  have plain: "\<forall>p\<in>set [payload_plain]. Metadata p ''encoding'' \<noteq> Some ''binary/encrypted''"
    by (simp add: payload_plain_def)
  from handleDecode_missing_key [OF h1 h2 h3 h4 h5, of env_fresh_kms world_started] plain
  have one: "handleDecode env_fresh_kms ?r world_started = (Inl MissingKeyMaterial, world_started)"
    by blast
  let ?s = "post_request [payload_bad_key, payload_missing_key]"
  let ?sreq = "\<lparr>CodecRequest.Payloads = [payload_bad_key] @ payload_missing_key # []\<rparr>"
  have g1: "Method ?s = ''POST''" and g2: "Body ?s = Some ?sreq"
    by (simp_all add: post_request_def)
  have g3: "CodecRequest.Payloads ?sreq = [payload_bad_key] @ payload_missing_key # []"
    by simp
  have pre: "[payload_bad_key] = [] @ payload_bad_key # []"
    by simp
  have ok: "decode_loop env_fresh_kms [] [] world_started = (Inr [], world_started)"
    by simp
  have enc: "Metadata payload_bad_key ''encoding'' = Some ''binary/encrypted''"
    and key: "EncryptedDataKey payload_bad_key \<noteq> []"
    by (simp_all add: payload_bad_key_def)
  have res: "DecryptDataKey env_fresh_kms (EncryptedDataKey payload_bad_key)
      (KMSKeyID payload_bad_key) world_started = (Inl EncryptedKeyDecodeFailed, world_started)"
    using DecryptDataKey_bang by (simp add: payload_bad_key_def)
  from handleDecode_missing_key [OF g1 g2 g3 h4 h5, of env_fresh_kms world_started]
    pre ok enc key res
  have two: "handleDecode env_fresh_kms ?s world_started
      = (Inl (KeyResolutionFailed EncryptedKeyDecodeFailed), world_started)"
    by blast
  from h1 h2 h4 h5 one g1 g2 ok enc key res two show ?thesis
    by simp
qed

text \<open>
  Claim C9, as stated, fails: \<open>handleEncode\<close> copies the master key identifier of the
  manager and the encrypted blob of the current key into the payload without looking at
  them. Against a KMS that returns an empty blob, the manager built by \<open>NewKMSManager\<close>
  with an empty master key identifier answers an encode request with an encrypted payload
  whose \<open>kms_key_id\<close> and \<open>encrypted_data_key\<close> are empty.
\<close>

theorem handleEncode_empty_key_metadata_counterexample:
  "\<exists>w0 q w1.
     NewKMSManager env_empty_kms [] 86400000000000 3600000000000 = Inr w0 \<and>
     handleEncode env_empty_kms (post_request [payload_plain]) w0 = (Inr \<lparr>Payloads = [q]\<rparr>, w1) \<and>
     Metadata q ''encoding'' = Some ''binary/encrypted'' \<and>
     KMSKeyID q = [] \<and> EncryptedDataKey q = []"
proof -
  let ?ck = "\<lparr>PlaintextKey = 0, EncryptedKey = [], GeneratedAt = 1, ExpiresAt = 3600000000001\<rparr>"
  have key: "currentDataKey world_empty_ids = Some ?ck"
    by (simp add: world_empty_ids_def)
  have live: "\<not> CurrentDataKey.ExpiresAt ?ck < time_Now env_empty_kms (ticks world_empty_ids)"
    by (simp add: world_empty_ids_def env_empty_kms_def)
  have len: "length (load (heap world_empty_ids) (PlaintextKey ?ck)) = 32"
    by (simp add: world_empty_ids_def load_def)
  have rnd: "12 \<le> length (rand_Reader env_empty_kms (encrypts world_empty_ids))"
    by (simp add: env_empty_kms_def)
  obtain c where enc: "encode_payload env_empty_kms payload_plain world_empty_ids =
      (Inr \<lparr>Metadata = [''encoding'' \<mapsto> ''binary/encrypted''], Data = c,
             KMSKeyID = keyID world_empty_ids, EncryptedDataKey = EncryptedKey ?ck,
             Algorithm = ''AES-256-GCM''\<rparr>,
       world_empty_ids\<lparr>ticks := Suc (ticks world_empty_ids),
         encrypts := Suc (encrypts world_empty_ids)\<rparr>)"
    by (rule encode_payload_plain [OF key live len rnd])
  have p: "Metadata payload_plain ''encoding'' = Some ''json/plain''"
    by (simp add: payload_plain_def)
  have id: "keyID world_empty_ids = []"
    by (simp add: world_empty_ids_def)
  from handleEncode_single [OF p enc] NewKMSManager_empty_ids id show ?thesis
    by auto
qed

text \<open>
  Claim C9, amended. Every payload in the response of \<open>handleEncode\<close> has the encoding
  \<open>binary/encrypted\<close>, the master key identifier of the manager as \<open>kms_key_id\<close> and the
  algorithm \<open>AES-256-GCM\<close>. The response has one payload for each request payload that is
  plain, in order, and the handler goes through the states \<open>ss\<close>, from the state before
  the call to the state after it, encoding the \<open>i\<close>-th of them in the \<open>i\<close>-th state: the
  \<open>encrypted_data_key\<close> of the \<open>i\<close>-th response payload is the encrypted blob of the key
  that \<open>GetCurrentDataKey\<close> returns in that state, which is the current key of the manager
  when the payload has been encoded. When the manager sends no request to the KMS during
  the call, this is for every payload the blob of the key that was current before the
  call and still is after it. The two key fields are non-empty exactly when the master key
  identifier and that blob are.
\<close>

theorem handleEncode_key_metadata:
  assumes "handleEncode e r w = (Inr resp, w')"
  shows "(\<forall>q\<in>set (CodecResponse.Payloads resp).
       Metadata q ''encoding'' = Some ''binary/encrypted'' \<and>
       KMSKeyID q = keyID w \<and> (KMSKeyID q \<noteq> [] \<longleftrightarrow> keyID w \<noteq> []) \<and>
       Algorithm q = ''AES-256-GCM'') \<and>
    (\<exists>req ss. Body r = Some req \<and>
       length (CodecResponse.Payloads resp) =
         length (filter (\<lambda>p. Metadata p ''encoding'' = None \<or>
                             Metadata p ''encoding'' = Some ''json/plain'')
                   (CodecRequest.Payloads req)) \<and>
       length ss = Suc (length (CodecResponse.Payloads resp)) \<and>
       ss ! 0 = w \<and> ss ! length (CodecResponse.Payloads resp) = w' \<and>
       (\<forall>i<length (CodecResponse.Payloads resp).
          encode_payload e
            (filter (\<lambda>p. Metadata p ''encoding'' = None \<or>
                          Metadata p ''encoding'' = Some ''json/plain'')
               (CodecRequest.Payloads req) ! i) (ss ! i)
            = (Inr (CodecResponse.Payloads resp ! i), ss ! Suc i) \<and>
          (\<exists>ck. fst (GetCurrentDataKey e (ss ! i)) = Inr (Some ck) \<and>
                currentDataKey (ss ! Suc i) = Some ck \<and>
                EncryptedDataKey (CodecResponse.Payloads resp ! i) = EncryptedKey ck \<and>
                (EncryptedDataKey (CodecResponse.Payloads resp ! i) \<noteq> [] \<longleftrightarrow>
                   EncryptedKey ck \<noteq> [])))) \<and>
    (length (client w') = length (client w) \<longrightarrow>
       currentDataKey w' = currentDataKey w \<and>
       (\<forall>q\<in>set (CodecResponse.Payloads resp).
          \<exists>ck. currentDataKey w = Some ck \<and> EncryptedDataKey q = EncryptedKey ck))"
proof -
  let ?plain = "\<lambda>p. Metadata p ''encoding'' = None \<or> Metadata p ''encoding'' = Some ''json/plain''"
  from handleEncode_Inr [OF assms] obtain req :: CodecRequest
    where body: "Body r = Some req"
      and loop: "encode_loop e (CodecRequest.Payloads req) [] w
        = (Inr (CodecResponse.Payloads resp), w')"
    by blast
  have fields: "\<forall>q\<in>set (CodecResponse.Payloads resp).
       Metadata q ''encoding'' = Some ''binary/encrypted'' \<and>
       KMSKeyID q = keyID w \<and> (KMSKeyID q \<noteq> [] \<longleftrightarrow> keyID w \<noteq> []) \<and>
       Algorithm q = ''AES-256-GCM''"
    using loop
  proof (rule encode_loop_invariant [where I = "\<lambda>s. keyID s = keyID w", rotated 3])
    fix p w0 q w1
    assume kid: "keyID w0 = keyID w" and enc: "encode_payload e p w0 = (Inr q, w1)"
    note out = encode_payload_Inr [OF enc]
    show "(Metadata q ''encoding'' = Some ''binary/encrypted'' \<and>
        KMSKeyID q = keyID w \<and> (KMSKeyID q \<noteq> [] \<longleftrightarrow> keyID w \<noteq> []) \<and>
        Algorithm q = ''AES-256-GCM'') \<and> keyID w1 = keyID w"
      using out(1,2,3,4) kid by simp
  qed simp_all
  from encode_loop_run [OF loop] obtain out ss where
    r: "CodecResponse.Payloads resp = [] @ out"
    and l: "length out = length (filter ?plain (CodecRequest.Payloads req))"
    and s: "length ss = Suc (length out)" and s0: "ss ! 0 = w" and sn: "ss ! length out = w'"
    and steps: "\<forall>i<length out.
      encode_payload e (filter ?plain (CodecRequest.Payloads req) ! i) (ss ! i)
        = (Inr (out ! i), ss ! Suc i)"
    by blast
  from r have out: "out = CodecResponse.Payloads resp" by simp
  have step: "encode_payload e (filter ?plain (CodecRequest.Payloads req) ! i) (ss ! i)
            = (Inr (CodecResponse.Payloads resp ! i), ss ! Suc i) \<and>
          (\<exists>ck. fst (GetCurrentDataKey e (ss ! i)) = Inr (Some ck) \<and>
                currentDataKey (ss ! Suc i) = Some ck \<and>
                EncryptedDataKey (CodecResponse.Payloads resp ! i) = EncryptedKey ck \<and>
                (EncryptedDataKey (CodecResponse.Payloads resp ! i) \<noteq> [] \<longleftrightarrow>
                   EncryptedKey ck \<noteq> []))"
    if "i < length (CodecResponse.Payloads resp)" for i
  proof -
    from steps that have enc: "encode_payload e (filter ?plain (CodecRequest.Payloads req) ! i) (ss ! i)
        = (Inr (CodecResponse.Payloads resp ! i), ss ! Suc i)"
      unfolding out by simp
    from encode_payload_key [OF enc] obtain ck where
      "fst (GetCurrentDataKey e (ss ! i)) = Inr (Some ck)" "currentDataKey (ss ! Suc i) = Some ck"
      "EncryptedDataKey (CodecResponse.Payloads resp ! i) = EncryptedKey ck"
      by blast
    with enc show ?thesis by simp
  qed
  from body l s s0 sn step have run: "\<exists>req ss. Body r = Some req \<and>
       length (CodecResponse.Payloads resp) =
         length (filter ?plain (CodecRequest.Payloads req)) \<and>
       length ss = Suc (length (CodecResponse.Payloads resp)) \<and>
       ss ! 0 = w \<and> ss ! length (CodecResponse.Payloads resp) = w' \<and>
       (\<forall>i<length (CodecResponse.Payloads resp).
          encode_payload e (filter ?plain (CodecRequest.Payloads req) ! i) (ss ! i)
            = (Inr (CodecResponse.Payloads resp ! i), ss ! Suc i) \<and>
          (\<exists>ck. fst (GetCurrentDataKey e (ss ! i)) = Inr (Some ck) \<and>
                currentDataKey (ss ! Suc i) = Some ck \<and>
                EncryptedDataKey (CodecResponse.Payloads resp ! i) = EncryptedKey ck \<and>
                (EncryptedDataKey (CodecResponse.Payloads resp ! i) \<noteq> [] \<longleftrightarrow>
                   EncryptedKey ck \<noteq> [])))"
    unfolding out by blast
  have quiet: "currentDataKey w' = currentDataKey w \<and>
       (\<forall>q\<in>set (CodecResponse.Payloads resp).
          \<exists>ck. currentDataKey w = Some ck \<and> EncryptedDataKey q = EncryptedKey ck)"
    if "length (client w') = length (client w)"
    using encode_loop_no_request [OF loop that] by simp
  from fields run quiet show ?thesis
    by blast
qed

theorem handleEncode_key_metadata_witness:
  "\<exists>resp w'.
     handleEncode env_fresh_kms (post_request [payload_plain]) world_started = (Inr resp, w') \<and>
     length (client w') = length (client world_started) \<and>
     length (CodecResponse.Payloads resp) = 1 \<and>
     Metadata (hd (CodecResponse.Payloads resp)) ''encoding'' = Some ''binary/encrypted'' \<and>
     KMSKeyID (hd (CodecResponse.Payloads resp)) = ''arn:aws:kms:key/1'' \<and>
     EncryptedDataKey (hd (CodecResponse.Payloads resp)) = ''AEJD'' \<and>
     Algorithm (hd (CodecResponse.Payloads resp)) = ''AES-256-GCM'' \<and>
     currentDataKey w' = currentDataKey world_started"
proof -
  let ?ck = "\<lparr>PlaintextKey = 0, EncryptedKey = EncodeToString [0, 0x42, 0x43],
      GeneratedAt = 1, ExpiresAt = 3600000000001\<rparr>"
  have key: "currentDataKey world_started = Some ?ck"
    by (simp add: world_started_def)
  have live: "\<not> CurrentDataKey.ExpiresAt ?ck < time_Now env_fresh_kms (ticks world_started)"
    by (simp add: world_started_def env_fresh_kms_def)
  have len: "length (load (heap world_started) (PlaintextKey ?ck)) = 32"
    by (simp add: world_started_def load_def)
  have rnd: "12 \<le> length (rand_Reader env_fresh_kms (encrypts world_started))"
    by (simp add: env_fresh_kms_def)
  obtain q where enc: "encode_payload env_fresh_kms payload_plain world_started =
      (Inr q, world_started\<lparr>ticks := Suc (ticks world_started),
         encrypts := Suc (encrypts world_started)\<rparr>)"
    using encode_payload_plain [OF key live len rnd] by metis
  let ?w' = "world_started\<lparr>ticks := Suc (ticks world_started),
         encrypts := Suc (encrypts world_started)\<rparr>"
  have p: "Metadata payload_plain ''encoding'' = Some ''json/plain''"
    by (simp add: payload_plain_def)
  have run: "handleEncode env_fresh_kms (post_request [payload_plain]) world_started
      = (Inr \<lparr>Payloads = [q]\<rparr>, ?w')"
    by (rule handleEncode_single [OF p enc])
  have quiet: "length (client ?w') = length (client world_started)"
    by simp
  note inst = handleEncode_key_metadata [OF run]
  from inst [THEN conjunct1]
  have fields: "Metadata q ''encoding'' = Some ''binary/encrypted'' \<and>
      KMSKeyID q = keyID world_started \<and> Algorithm q = ''AES-256-GCM''"
    by simp
  from inst [THEN conjunct2, THEN conjunct2, rule_format, OF quiet]
  have same: "currentDataKey ?w' = currentDataKey world_started"
    and "\<exists>ck. currentDataKey world_started = Some ck \<and> EncryptedDataKey q = EncryptedKey ck"
    by simp_all
  with key have "EncryptedDataKey q = EncryptedKey ?ck"
    by simp
  then have blob: "EncryptedDataKey q = ''AEJD''"
    by (simp add: EncodeToString_0BC)
  have kid: "keyID world_started = ''arn:aws:kms:key/1''"
    by (simp add: world_started_def)
  from run quiet fields kid blob same show ?thesis
    by (intro exI [of _ "\<lparr>Payloads = [q]\<rparr>"] exI [of _ ?w']) simp
qed

text \<open>
  Claim C10. Every payload in the response of \<open>handleEncode\<close> has a metadata map with the
  one entry \<open>encoding\<close>, whatever entries the request payload had. In the response of
  \<open>handleDecode\<close>, which has one payload for each payload of the request, the payload at
  the position of an encrypted request payload has a metadata map with the one entry
  \<open>encoding\<close> and empty \<open>kms_key_id\<close>, \<open>encrypted_data_key\<close> and \<open>algorithm\<close> fields.
\<close>

theorem transformed_payload_metadata:
  "(handleEncode e r w = (Inr resp, w') \<longrightarrow>
      (\<forall>q\<in>set (CodecResponse.Payloads resp). dom (Metadata q) = {''encoding''})) \<and>
   (handleDecode e r w = (Inr resp, w') \<longrightarrow>
      (\<forall>req. Body r = Some req \<longrightarrow>
         length (CodecResponse.Payloads resp) = length (CodecRequest.Payloads req) \<and>
         (\<forall>i < length (CodecRequest.Payloads req).
            Metadata (CodecRequest.Payloads req ! i) ''encoding'' = Some ''binary/encrypted'' \<longrightarrow>
            dom (Metadata (CodecResponse.Payloads resp ! i)) = {''encoding''} \<and>
            KMSKeyID (CodecResponse.Payloads resp ! i) = [] \<and>
            EncryptedDataKey (CodecResponse.Payloads resp ! i) = [] \<and>
            Algorithm (CodecResponse.Payloads resp ! i) = [])))"
proof (intro conjI impI allI)
  assume "handleEncode e r w = (Inr resp, w')"
  from handleEncode_Inr [OF this] obtain req :: CodecRequest
    where "encode_loop e (CodecRequest.Payloads req) [] w = (Inr (CodecResponse.Payloads resp), w')"
    by blast
  then show "\<forall>q\<in>set (CodecResponse.Payloads resp). dom (Metadata q) = {''encoding''}"
  proof (rule encode_loop_invariant [where I = "\<lambda>_. True", rotated 3])
    fix p w0 q w1
    assume "encode_payload e p w0 = (Inr q, w1)"
    then have "Metadata q = [''encoding'' \<mapsto> ''binary/encrypted'']"
      by (rule encode_payload_Inr(1))
    then show "dom (Metadata q) = {''encoding''} \<and> True" by simp
  qed simp_all
next
  fix req
  assume run: "handleDecode e r w = (Inr resp, w')" and body: "Body r = Some req"
  let ?R = "\<lambda>p q. Metadata p ''encoding'' = Some ''binary/encrypted'' \<longrightarrow>
       Metadata q = [''encoding'' \<mapsto> ''json/plain''] \<and> KMSKeyID q = [] \<and>
       EncryptedDataKey q = [] \<and> Algorithm q = []"
  from run body
  have "decode_loop e (CodecRequest.Payloads req) [] w = (Inr (CodecResponse.Payloads resp), w')"
    using handleDecode_Inr [of e r w resp w'] by auto
  then have "\<exists>out. CodecResponse.Payloads resp = [] @ out \<and>
      list_all2 ?R (CodecRequest.Payloads req) out"
    by (rule decode_loop_rel [rotated 2]) (simp_all add: decode_payload_Inr)
  then have shape: "list_all2 ?R (CodecRequest.Payloads req) (CodecResponse.Payloads resp)"
    by simp
  then show len: "length (CodecResponse.Payloads resp) = length (CodecRequest.Payloads req)"
    by (simp add: list_all2_lengthD)
  fix i
  assume "i < length (CodecRequest.Payloads req)"
    and "Metadata (CodecRequest.Payloads req ! i) ''encoding'' = Some ''binary/encrypted''"
  with shape have q: "Metadata (CodecResponse.Payloads resp ! i) = [''encoding'' \<mapsto> ''json/plain''] \<and>
      KMSKeyID (CodecResponse.Payloads resp ! i) = [] \<and>
      EncryptedDataKey (CodecResponse.Payloads resp ! i) = [] \<and>
      Algorithm (CodecResponse.Payloads resp ! i) = []"
    by (simp add: list_all2_conv_all_nth)
  then show "dom (Metadata (CodecResponse.Payloads resp ! i)) = {''encoding''}"
    and "KMSKeyID (CodecResponse.Payloads resp ! i) = []"
    and "EncryptedDataKey (CodecResponse.Payloads resp ! i) = []"
    and "Algorithm (CodecResponse.Payloads resp ! i) = []"
    by simp_all
qed

theorem transformed_payload_metadata_witness:
  "\<exists>resp w1 resp' w2.
     handleEncode env_fresh_kms (post_request [payload_plain]) world_started = (Inr resp, w1) \<and>
     length (CodecResponse.Payloads resp) = 1 \<and>
     dom (Metadata (hd (CodecResponse.Payloads resp))) = {''encoding''} \<and>
     handleDecode env_fresh_kms (post_request (CodecResponse.Payloads resp)) w1 = (Inr resp', w2) \<and>
     length (CodecResponse.Payloads resp') = 1 \<and>
     dom (Metadata (hd (CodecResponse.Payloads resp'))) = {''encoding''} \<and>
     Data (hd (CodecResponse.Payloads resp')) = ''eyJpZCI6MTIzfQ=='' \<and>
     KMSKeyID (hd (CodecResponse.Payloads resp')) = [] \<and>
     EncryptedDataKey (hd (CodecResponse.Payloads resp')) = [] \<and>
     Algorithm (hd (CodecResponse.Payloads resp')) = []"
proof -
  let ?e = env_fresh_kms
  let ?plain = "[0x7b, 0x22, 0x69, 0x64, 0x22, 0x3a, 0x31, 0x32, 0x33, 0x7d] :: bytes"
  let ?ck = "\<lparr>PlaintextKey = 0, EncryptedKey = EncodeToString [0, 0x42, 0x43],
      GeneratedAt = 1, ExpiresAt = 3600000000001\<rparr>"
  let ?w1 = "world_started\<lparr>ticks := Suc (ticks world_started),
         encrypts := Suc (encrypts world_started)\<rparr>"
  have key: "currentDataKey world_started = Some ?ck"
    by (simp add: world_started_def)
  have live: "\<not> CurrentDataKey.ExpiresAt ?ck < time_Now ?e (ticks world_started)"
    by (simp add: world_started_def env_fresh_kms_def)
  have len: "length (load (heap world_started) (PlaintextKey ?ck)) = 32"
    by (simp add: world_started_def load_def)
  have rnd: "12 \<le> length (rand_Reader ?e (encrypts world_started))"
    by (simp add: env_fresh_kms_def)
  obtain c where sealed: "EncryptWithDataKey ?plain (load (heap world_started) (PlaintextKey ?ck))
        (rand_Reader ?e (encrypts world_started)) = Inr c"
    and enc: "encode_payload ?e payload_plain world_started =
      (Inr \<lparr>Metadata = [''encoding'' \<mapsto> ''binary/encrypted''], Data = c,
             KMSKeyID = keyID world_started, EncryptedDataKey = EncryptedKey ?ck,
             Algorithm = ''AES-256-GCM''\<rparr>, ?w1)"
    by (rule encode_payload_plain [OF key live len rnd])
  let ?q = "\<lparr>Metadata = [''encoding'' \<mapsto> ''binary/encrypted''], Data = c,
             KMSKeyID = keyID world_started, EncryptedDataKey = EncryptedKey ?ck,
             Algorithm = ''AES-256-GCM''\<rparr>"
  let ?q' = "\<lparr>Metadata = [''encoding'' \<mapsto> ''json/plain''], Data = EncodeToString ?plain,
           KMSKeyID = [], EncryptedDataKey = [], Algorithm = []\<rparr>"
  have p: "Metadata payload_plain ''encoding'' = Some ''json/plain''"
    by (simp add: payload_plain_def)
  have run: "handleEncode ?e (post_request [payload_plain]) world_started
      = (Inr \<lparr>Payloads = [?q]\<rparr>, ?w1)"
    by (rule handleEncode_single [OF p enc])
  have ne: "EncryptedDataKey ?q \<noteq> []"
    by (simp add: EncodeToString_0BC)
  have cur: "current_key_match ?w1 (EncryptedDataKey ?q) = Some 0"
    by (simp add: current_key_match_def world_started_def)
  have "DecryptWithDataKey c (load (heap world_started) (PlaintextKey ?ck)) = Inr ?plain"
    using sealed by (rule DecryptWithDataKey_EncryptWithDataKey)
  then have opened: "DecryptWithDataKey (Data ?q) (load (heap ?w1) 0) = Inr ?plain"
    by simp
  have dec: "decode_payload ?e ?q ?w1 = (Inr ?q', ?w1)"
    by (rule decode_payload_current_key [OF ne cur opened])
  have again: "handleDecode ?e (post_request [?q]) ?w1 = (Inr \<lparr>Payloads = [?q']\<rparr>, ?w1)"
    by (rule handleDecode_single [OF _ dec]) simp
  from transformed_payload_metadata [of ?e "post_request [payload_plain]" world_started
      "\<lparr>Payloads = [?q]\<rparr>" ?w1] run
  have m1: "dom (Metadata ?q) = {''encoding''}"
    by simp
  from transformed_payload_metadata [of ?e "post_request [?q]" ?w1 "\<lparr>Payloads = [?q']\<rparr>" ?w1] again
  have m2: "dom (Metadata ?q') = {''encoding''}"
    by (simp add: post_request_def)
  show ?thesis
    using run again m1 m2
    by (intro exI [of _ "\<lparr>Payloads = [?q]\<rparr>"] exI [of _ ?w1] exI [of _ "\<lparr>Payloads = [?q']\<rparr>"])
      (simp add: EncodeToString_id123)
qed

end
